theory Spec2Isabelle
  imports Complex_Main "HOL-Library.Word" "HOL-Library.Extended_Nat"
begin

unbundle bit_operations_syntax

section \<open>Data model\<close>

text \<open>
  Grid positions are \<open>(row, column)\<close> pairs of Python integers; orientations and action
  codes are Python integers as well. Exceptions of the source are values of \<open>py_error\<close>.
\<close>

type_synonym pos = "int \<times> int"

datatype py_error = IndexError | KeyError | ValueError | TypeError

text \<open>\<open>RailEnvActions\<close> (an \<open>IntEnum\<close>, compared with \<open>==\<close> against plain integers).\<close>

abbreviation DO_NOTHING :: int where "DO_NOTHING \<equiv> 0"
abbreviation MOVE_LEFT :: int where "MOVE_LEFT \<equiv> 1"
abbreviation MOVE_FORWARD :: int where "MOVE_FORWARD \<equiv> 2"
abbreviation MOVE_RIGHT :: int where "MOVE_RIGHT \<equiv> 3"
abbreviation STOP_MOVING :: int where "STOP_MOVING \<equiv> 4"

text \<open>\<open>len(RailEnvActions)\<close>: the enumeration has five members.\<close>

definition len_RailEnvActions :: int where
  "len_RailEnvActions = 5"

subsection \<open>Transition map\<close>

text \<open>
  The rail: a \<open>height \<times> width\<close> array of 16-bit masks. The array is a function on all
  integer pairs; the two query functions below never read it out of bounds.
\<close>

record grid_transition_map =
  gheight :: int
  gwidth :: int
  grid :: "pos \<Rightarrow> 16 word"

text \<open>
  Modelled from the spec: the class \<open>GridTransitionMap\<close> (\<open>rail.get_transitions\<close>,
  \<open>rail.get_transition\<close>) is not among the source files. Spec, Data model and 4.1: each cell
  holds a 16-bit mask where bit \<open>entryDir*4 + exitDir\<close> is set iff an agent facing
  \<open>entryDir\<close> may exit toward \<open>exitDir\<close>; out-of-bounds queries return an empty mask.

  \<open>get_transitions_cell\<close> is \<open>get_transitions((r, c))\<close> (the whole mask),
  \<open>get_transition\<close> is \<open>get_transition((r, c, o), d)\<close> (one bit) and \<open>get_transitions\<close>
  is \<open>get_transitions((r, c, o))\<close> (the 4-tuple of exit bits of one entry direction).
\<close>

definition get_transitions_cell :: "grid_transition_map \<Rightarrow> pos \<Rightarrow> 16 word" where
  "get_transitions_cell m p =
     (if 0 \<le> fst p \<and> fst p < gheight m \<and> 0 \<le> snd p \<and> snd p < gwidth m then grid m p else 0)"

definition get_transition :: "grid_transition_map \<Rightarrow> pos \<times> int \<Rightarrow> int \<Rightarrow> bool" where
  "get_transition m cell d =
     (0 \<le> snd cell \<and> snd cell < 4 \<and> 0 \<le> d \<and> d < 4 \<and>
      bit (get_transitions_cell m (fst cell)) (nat (snd cell * 4 + d)))"

definition get_transitions :: "grid_transition_map \<Rightarrow> pos \<times> int \<Rightarrow> bool list" where
  "get_transitions m cell = map (get_transition m cell) [0, 1, 2, 3]"

text \<open>
  Modelled from the spec: \<open>get_new_position\<close> of \<open>flatland.core.grid.grid4_utils\<close> is not
  among the source files. Spec, Data model: fixed deltas N: row-1, E: col+1, S: row+1,
  W: col-1. The observation builder's own \<open>_new_position\<close> (which is in the source) is the
  same function; like it, the model has no result for a movement outside 0..3.
\<close>

definition get_new_position :: "pos \<Rightarrow> int \<Rightarrow> pos option" where
  "get_new_position position movement =
     (if movement = 0 then Some (fst position - 1, snd position)
      else if movement = 1 then Some (fst position, snd position + 1)
      else if movement = 2 then Some (fst position + 1, snd position)
      else if movement = 3 then Some (fst position, snd position - 1)
      else None)"

text \<open>\<open>np.count_nonzero\<close> and \<open>np.argmax\<close> on a tuple of bits.\<close>

definition count_nonzero :: "bool list \<Rightarrow> nat" where
  "count_nonzero bs = length (filter (\<lambda>b. b) bs)"

fun argmax :: "bool list \<Rightarrow> nat" where
  "argmax [] = 0"
| "argmax (b # bs) = (if b then 0 else if (\<exists>x \<in> set bs. x) then Suc (argmax bs) else 0)"

subsection \<open>Agents and environment\<close>

text \<open>
  The fields of \<open>EnvAgent\<close> that \<open>step\<close> reads or writes. The three entries of the
  \<open>speed_data\<close> dictionary are fields; \<open>old_direction\<close> and \<open>old_position\<close> are unset
  until the first step. Speeds, fractions and rewards are floats in the source and reals
  here; no theorem below depends on how \<open>+\<close> rounds.
\<close>

record env_agent =
  position :: pos
  direction :: int
  target :: pos
  moving :: bool
  speed :: real
  position_fraction :: real
  transition_action_on_cellexit :: int
  old_direction :: "int option"
  old_position :: "pos option"

text \<open>\<open>EnvAgentStatic(position, direction, target)\<close>; \<open>step\<close> only uses the length of the list.\<close>

record env_agent_static =
  s_position :: pos
  s_direction :: int
  s_target :: pos

text \<open>
  The state of \<open>RailEnv\<close> that \<open>step\<close> touches; the grid size and the rail are the part
  that the observation builder's environment below has too. \<open>dones\<close> is the dictionary
  without its \<open>"__all__"\<close> entry, which is \<open>dones_all\<close>.
\<close>

record environment =
  height :: int
  width :: int
  rail :: grid_transition_map

record rail_env = environment +
  agents :: "env_agent list"
  agents_static :: "env_agent_static list"
  dones :: "nat \<rightharpoonup> bool"
  dones_all :: bool
  rewards_dict :: "nat \<rightharpoonup> real"

definition get_num_agents :: "rail_env \<Rightarrow> nat" where
  "get_num_agents env = length (agents_static env)"

section \<open>The step engine\<close>

text \<open>The reward constants that \<open>step\<close> sets at its start (\<open>alpha = beta = 1.0\<close>).\<close>

definition invalid_action_penalty :: real where "invalid_action_penalty = 0"
definition step_penalty :: real where "step_penalty = - 1 * 1"
definition global_reward :: real where "global_reward = 1 * 1"
definition stop_penalty :: real where "stop_penalty = 0"
definition start_penalty :: real where "start_penalty = 0"

text \<open>\<open>check_action\<close>: the direction an action leads to, and whether it is already known valid.\<close>

definition check_action :: "rail_env \<Rightarrow> env_agent \<Rightarrow> int \<Rightarrow> int \<times> bool option" where
  "check_action env agent action =
     (let possible_transitions = get_transitions (rail env) (position agent, direction agent);
          num_transitions = count_nonzero possible_transitions;
          nd_tv =
            (if action = MOVE_LEFT
             then (direction agent - 1, if num_transitions \<le> 1 then Some False else None)
             else if action = MOVE_RIGHT
             then (direction agent + 1, if num_transitions \<le> 1 then Some False else None)
             else (direction agent, None));
          new_direction = fst nd_tv mod 4
      in if action = MOVE_FORWARD \<and> num_transitions = 1
         then (int (argmax possible_transitions), Some True)
         else (new_direction, snd nd_tv))"

text \<open>
  \<open>_check_action_on_agent\<close>, returning
  \<open>(cell_isFree, new_cell_isValid, new_direction, new_position, transition_isValid)\<close>.
  \<open>self.agents\<close> is the agent list of \<open>env\<close>: only positions are read from it.
  \<open>np.clip(x, lo, hi)\<close> is \<open>min hi (max lo x)\<close>, componentwise.
\<close>

definition check_action_on_agent ::
  "rail_env \<Rightarrow> int \<Rightarrow> env_agent \<Rightarrow> py_error + (bool \<times> bool \<times> int \<times> pos \<times> bool)" where
  "check_action_on_agent env action agent =
     (let new_direction = fst (check_action env agent action);
          transition_isValid = snd (check_action env agent action)
      in case get_new_position (position agent) new_direction of
           None \<Rightarrow> Inl TypeError
         | Some new_position \<Rightarrow>
             (let new_cell_isValid =
                    (new_position =
                       (min (height env - 1) (max 0 (fst new_position)),
                        min (width env - 1) (max 0 (snd new_position)))
                     \<and> get_transitions_cell (rail env) new_position > 0);
                  transition_isValid =
                    (case transition_isValid of
                       None \<Rightarrow> get_transition (rail env) (position agent, direction agent) new_direction
                     | Some b \<Rightarrow> b);
                  cell_isFree = (new_position \<notin> set (map position (agents env)))
              in Inr (cell_isFree, new_cell_isValid, new_direction, new_position, transition_isValid)))"

text \<open>
  The body of the loop of \<open>step\<close> for one agent that is not done, in the order of the
  source. \<open>select_action\<close> is lines 213-226: a missing entry and a code rejected by the
  range test become do-nothing, and do-nothing on a moving agent becomes move-forward.
\<close>

definition select_action :: "(nat \<rightharpoonup> int) \<Rightarrow> nat \<Rightarrow> env_agent \<Rightarrow> int" where
  "select_action action_dict iAgent agent =
     (let a = (case action_dict iAgent of None \<Rightarrow> DO_NOTHING | Some a \<Rightarrow> a);
          a = (if a < 0 \<or> a > len_RailEnvActions then DO_NOTHING else a)
      in if a = DO_NOTHING \<and> moving agent then MOVE_FORWARD else a)"

text \<open>Lines 228-236: halting at a cell boundary, starting a stationary agent.\<close>

definition halt_or_start :: "int \<Rightarrow> env_agent \<times> real \<Rightarrow> env_agent \<times> real" where
  "halt_or_start action ar =
     (let ar = (if action = STOP_MOVING \<and> moving (fst ar) \<and> position_fraction (fst ar) = 0
                then ((fst ar)\<lparr>moving := False\<rparr>, snd ar + stop_penalty) else ar)
      in if \<not> moving (fst ar) \<and> \<not> (action = DO_NOTHING \<or> action = STOP_MOVING)
         then ((fst ar)\<lparr>moving := True\<rparr>, snd ar + start_penalty) else ar)"

text \<open>
  Lines 249-283: at a cell boundary a movement action is validated and stored.
  \<open>Selected\<close> carries \<open>action_selected\<close>; \<open>Skipped\<close> is the \<open>continue\<close> of the two
  invalid-action branches, which ends the tick for this agent.
\<close>

datatype selection = Selected env_agent real bool | Skipped env_agent real

definition forced_stop :: "env_agent \<times> real \<Rightarrow> selection" where
  "forced_stop ar =
     Skipped ((fst ar)\<lparr>moving := False\<rparr>) (snd ar + invalid_action_penalty + stop_penalty)"

definition choose_transition ::
  "rail_env \<Rightarrow> int \<Rightarrow> env_agent \<times> real \<Rightarrow> py_error + selection" where
  "choose_transition env action ar =
     (if position_fraction (fst ar) = 0 \<and> action \<noteq> DO_NOTHING \<and> action \<noteq> STOP_MOVING
      then case check_action_on_agent env action (fst ar) of
             Inl e \<Rightarrow> Inl e
           | Inr (cell_isFree, new_cell_isValid, new_direction, new_position, transition_isValid) \<Rightarrow>
               if new_cell_isValid \<and> transition_isValid
               then Inr (Selected ((fst ar)\<lparr>transition_action_on_cellexit := action\<rparr>) (snd ar) True)
               else if (action = MOVE_LEFT \<or> action = MOVE_RIGHT) \<and> moving (fst ar)
               then (case check_action_on_agent env MOVE_FORWARD (fst ar) of
                       Inl e \<Rightarrow> Inl e
                     | Inr (cell_isFree, new_cell_isValid, new_direction, new_position,
                            transition_isValid) \<Rightarrow>
                         if new_cell_isValid \<and> transition_isValid
                         then Inr (Selected
                                ((fst ar)\<lparr>transition_action_on_cellexit := MOVE_FORWARD\<rparr>)
                                (snd ar) True)
                         else Inr (forced_stop ar))
               else Inr (forced_stop ar)
      else Inr (Selected (fst ar) (snd ar) False))"

text \<open>Lines 285-286: a moving agent advances through its cell.\<close>

definition advance :: "bool \<Rightarrow> env_agent \<Rightarrow> env_agent" where
  "advance action_selected agent =
     (if moving agent \<and> (action_selected \<or> position_fraction agent > 0)
      then agent\<lparr>position_fraction := position_fraction agent + speed agent\<rparr>
      else agent)"

text \<open>Lines 288-300: at the end of the cell the stored action is checked again and performed.\<close>

definition exit_cell :: "rail_env \<Rightarrow> env_agent \<Rightarrow> py_error + env_agent" where
  "exit_cell env agent =
     (if position_fraction agent \<ge> 1
      then case check_action_on_agent env (transition_action_on_cellexit agent) agent of
             Inl e \<Rightarrow> Inl e
           | Inr (cell_isFree, new_cell_isValid, new_direction, new_position, transition_isValid) \<Rightarrow>
               if new_cell_isValid \<and> transition_isValid \<and> cell_isFree
               then Inr (agent\<lparr>position := new_position, direction := new_direction,
                                position_fraction := 0\<rparr>)
               else Inr agent
      else Inr agent)"

text \<open>
  Lines 224-305 for one agent that is not done: from the agent's record and its reward so
  far to its new record, its reward, and whether line 303 marked it done. \<open>env\<close> is read
  only for the rail, the grid size and the positions of the agents.
\<close>

definition agent_tick ::
  "rail_env \<Rightarrow> int \<Rightarrow> env_agent \<times> real \<Rightarrow> py_error + (env_agent \<times> real \<times> bool)" where
  "agent_tick env action ar =
     (case choose_transition env action (halt_or_start action ar) of
        Inl e \<Rightarrow> Inl e
      | Inr (Skipped agent r) \<Rightarrow> Inr (agent, r, False)
      | Inr (Selected agent r action_selected) \<Rightarrow>
          (case exit_cell env (advance action_selected agent) of
             Inl e \<Rightarrow> Inl e
           | Inr agent \<Rightarrow>
               if position agent = target agent
               then Inr (agent, r, True)
               else Inr (agent, r + step_penalty * speed agent, False)))"

text \<open>
  One iteration of the loop over the agents (lines 207-305). The agent's new record, its
  reward and its done flag are written back at the end: until \<open>exit_cell\<close> the iteration
  changes no position, so the positions that \<open>_check_action_on_agent\<close> reads from
  \<open>self.agents\<close> are those of \<open>env\<close>.
\<close>

definition step_agent :: "(nat \<rightharpoonup> int) \<Rightarrow> nat \<Rightarrow> rail_env \<Rightarrow> py_error + rail_env" where
  "step_agent action_dict iAgent env =
     (if iAgent \<ge> length (agents env) then Inl IndexError
      else
        let agent0 = agents env ! iAgent;
            agent = agent0\<lparr>old_direction := Some (direction agent0),
                           old_position := Some (position agent0)\<rparr>
        in case dones env iAgent of
             None \<Rightarrow> Inl KeyError
           | Some True \<Rightarrow> Inr (env\<lparr>agents := (agents env)[iAgent := agent]\<rparr>)
           | Some False \<Rightarrow>
               (case rewards_dict env iAgent of
                  None \<Rightarrow> Inl KeyError
                | Some r0 \<Rightarrow>
                    (case agent_tick env (select_action action_dict iAgent agent) (agent, r0) of
                       Inl e \<Rightarrow> Inl e
                     | Inr (agent, r, marked_done) \<Rightarrow>
                         Inr (env\<lparr>agents := (agents env)[iAgent := agent],
                                  rewards_dict := (rewards_dict env)(iAgent \<mapsto> r),
                                  dones := (if marked_done then (dones env)(iAgent \<mapsto> True)
                                            else dones env)\<rparr>))))"

fun step_agents :: "(nat \<rightharpoonup> int) \<Rightarrow> nat list \<Rightarrow> rail_env \<Rightarrow> py_error + rail_env" where
  "step_agents action_dict [] env = Inr env"
| "step_agents action_dict (iAgent # rest) env =
     (case step_agent action_dict iAgent env of
        Inl e \<Rightarrow> Inl e
      | Inr env' \<Rightarrow> step_agents action_dict rest env')"

text \<open>
  \<open>step\<close>. The result is the environment after the tick; the rewards and done flags that
  the source returns are its \<open>rewards_dict\<close>, \<open>dones\<close> and \<open>dones_all\<close>. The observations
  returned alongside come from the observation builder given at construction, which reads
  the environment and does not change it; they are left out.
\<close>

definition step :: "rail_env \<Rightarrow> (nat \<rightharpoonup> int) \<Rightarrow> py_error + rail_env" where
  "step env action_dict =
     (let env = env\<lparr>rewards_dict := (\<lambda>i. if i < get_num_agents env then Some 0 else None)\<rparr>
      in if dones_all env
         then Inr (env\<lparr>rewards_dict := map_option (\<lambda>r. r + global_reward) \<circ> rewards_dict env\<rparr>)
         else case step_agents action_dict [0..<get_num_agents env] env of
                Inl e \<Rightarrow> Inl e
              | Inr env \<Rightarrow>
                  if list_all (\<lambda>agent2. position agent2 = target agent2) (agents env)
                  then Inr (env\<lparr>dones_all := True,
                                 rewards_dict :=
                                   map_option (\<lambda>r. 0 * r + global_reward) \<circ> rewards_dict env\<rparr>)
                  else Inr env)"

text \<open>Successive calls of \<open>step\<close> within one episode, one action dictionary per call.\<close>

fun run_steps :: "rail_env \<Rightarrow> (nat \<rightharpoonup> int) list \<Rightarrow> py_error + rail_env" where
  "run_steps env [] = Inr env"
| "run_steps env (action_dict # rest) =
     (case step env action_dict of
        Inl e \<Rightarrow> Inl e
      | Inr env' \<Rightarrow> run_steps env' rest)"

section \<open>The tree observation builder\<close>

text \<open>
  \<open>TreeObsForRailEnv\<close> reads its environment through the attributes \<open>height\<close>, \<open>width\<close>,
  \<open>rail\<close>, \<open>number_of_agents\<close>, \<open>agents_target\<close>, \<open>agents_position\<close> and
  \<open>agents_direction\<close>.
\<close>

record tree_env = environment +
  number_of_agents :: nat
  agents_target :: "pos list"
  agents_position :: "pos list"
  agents_direction :: "int list"


text \<open>
  The state of the builder. \<open>distance_map\<close> is a float array of shape
  \<open>(number_of_agents, height, width, 4)\<close>: \<open>shape\<close> holds the first three extents, as
  \<open>reset\<close> sets them, and the last one is always 4.
\<close>

record tree_obs =
  max_depth :: nat
  shape :: "int \<times> int \<times> int"
  distance_map :: "nat \<times> nat \<times> nat \<times> nat \<Rightarrow> enat"
  max_dist :: "nat \<Rightarrow> enat"
  location_has_target :: "pos set"
  location_has_agent :: "pos set"

text \<open>
  Indexing one axis of extent \<open>n\<close> of a numpy array: an index from \<open>-n\<close> to \<open>-1\<close> counts
  from the end, any other index outside \<open>0..n-1\<close> raises \<open>IndexError\<close>. \<open>np_index3\<close> is
  \<open>distance_map[a, r, c]\<close> (a row of four entries), \<open>np_index4\<close> is
  \<open>distance_map[a, r, c, o]\<close>.
\<close>

definition np_index :: "int \<Rightarrow> int \<Rightarrow> nat option" where
  "np_index n i =
     (if 0 \<le> i \<and> i < n then Some (nat i)
      else if - n \<le> i \<and> i < 0 then Some (nat (i + n))
      else None)"

definition np_index3 :: "int \<times> int \<times> int \<Rightarrow> int \<times> int \<times> int \<Rightarrow> (nat \<times> nat \<times> nat) option" where
  "np_index3 shp idx =
     (case (np_index (fst shp) (fst idx),
            np_index (fst (snd shp)) (fst (snd idx)),
            np_index (snd (snd shp)) (snd (snd idx))) of
        (Some a, Some r, Some c) \<Rightarrow> Some (a, r, c)
      | _ \<Rightarrow> None)"

definition np_index4 :: "int \<times> int \<times> int \<Rightarrow> int \<times> int \<times> int \<times> int \<Rightarrow> (nat \<times> nat \<times> nat \<times> nat) option" where
  "np_index4 shp idx =
     (case (np_index3 shp (fst idx, fst (snd idx), fst (snd (snd idx))),
            np_index 4 (snd (snd (snd idx)))) of
        (Some (a, r, c), Some ori) \<Rightarrow> Some (a, r, c, ori)
      | _ \<Rightarrow> None)"

definition dm_read :: "tree_obs \<Rightarrow> int \<times> int \<times> int \<times> int \<Rightarrow> py_error + enat" where
  "dm_read b idx =
     (case np_index4 (shape b) idx of
        None \<Rightarrow> Inl IndexError
      | Some k \<Rightarrow> Inr (distance_map b k))"

definition dm_write :: "tree_obs \<Rightarrow> int \<times> int \<times> int \<times> int \<Rightarrow> enat \<Rightarrow> py_error + tree_obs" where
  "dm_write b idx v =
     (case np_index4 (shape b) idx of
        None \<Rightarrow> Inl IndexError
      | Some k \<Rightarrow> Inr (b\<lparr>distance_map := (distance_map b)(k := v)\<rparr>))"

text \<open>\<open>_new_position\<close>: without a \<open>return\<close> for a movement outside 0..3.\<close>

definition new_position :: "pos \<Rightarrow> int \<Rightarrow> pos option" where
  "new_position p movement =
     (if movement = 0 then Some (fst p - 1, snd p)
      else if movement = 1 then Some (fst p, snd p + 1)
      else if movement = 2 then Some (fst p + 1, snd p)
      else if movement = 3 then Some (fst p, snd p - 1)
      else None)"

text \<open>
  The loop that counts the bits of a cell's mask
  (\<open>while tmp > 0: nbits += (tmp & 1); tmp = tmp >> 1\<close>), written out three times in the
  source.
\<close>

function nbits_loop :: "16 word \<Rightarrow> nat \<Rightarrow> nat" where
  "nbits_loop tmp nbits =
     (if tmp > 0 then nbits_loop (drop_bit 1 tmp) (nbits + unat (tmp AND 1)) else nbits)"
  by pat_completeness auto
termination
proof (relation "measure (\<lambda>(tmp, nbits). unat tmp)")
  show "wf (measure (\<lambda>(tmp :: 16 word, nbits :: nat). unat tmp))" by simp
next
  fix tmp :: "16 word" and nbits :: nat
  assume "0 < tmp"
  then have "0 < unat tmp" by (simp add: word_less_nat_alt)
  then have "unat tmp div 2 < unat tmp" by simp
  then show "((drop_bit 1 tmp, nbits + unat (tmp AND 1)), (tmp, nbits)) \<in> measure (\<lambda>(tmp, nbits). unat tmp)"
    by (simp add: drop_bit_eq_div unat_div)
qed

declare nbits_loop.simps [simp del]

definition count_bits :: "16 word \<Rightarrow> nat" where
  "count_bits w = nbits_loop w 0"

subsection \<open>The distance map\<close>

type_synonym node = "int \<times> int \<times> int \<times> enat"

definition in_grid :: "tree_env \<Rightarrow> pos \<Rightarrow> bool" where
  "in_grid env new_cell =
     (fst new_cell \<ge> 0 \<and> fst new_cell < height env \<and> snd new_cell \<ge> 0 \<and> snd new_cell < width env)"

text \<open>
  \<open>_get_and_update_neighbors\<close>, first loop (lines 130-175), over \<open>direction\<close>. Where the
  loop finds \<open>transitionValid and directionMatch\<close>, line 172 calls Python's built-in
  \<open>min\<close> on \<open>self.distance_map[target_nr, new_cell[0], new_cell[1]]\<close>, which is the row
  of the four orientations (an array of four floats), and on \<open>current_distance+1\<close>.
  \<open>min\<close> compares the two with \<open><\<close>, gets an array of four booleans and asks for its
  truth value, which numpy refuses with \<open>ValueError\<close> for an array of more than one
  element. The loop changes nothing before that line, so it either raises or has no effect.
\<close>

fun neighbors_by_row :: "tree_obs \<Rightarrow> tree_env \<Rightarrow> pos \<Rightarrow> nat \<Rightarrow> int \<Rightarrow> int list \<Rightarrow> py_error + unit" where
  "neighbors_by_row b env cur_position target_nr enforce_target_direction [] = Inr ()"
| "neighbors_by_row b env cur_position target_nr enforce_target_direction (cur_direction # rest) =
     (case new_position cur_position ((cur_direction + 2) mod 4) of
        None \<Rightarrow> Inl TypeError
      | Some new_cell \<Rightarrow>
          if in_grid env new_cell
          then
            let transitionValid =
                  list_ex (\<lambda>orientation.
                     get_transitions (rail env) (new_cell, orientation) ! nat cur_direction)
                    [0, 1, 2, 3]
            in if \<not> transitionValid
               then neighbors_by_row b env cur_position target_nr enforce_target_direction rest
               else
                 let directionMatch =
                       (if enforce_target_direction \<ge> 0
                        then get_transition (rail env) (new_cell, cur_direction)
                               enforce_target_direction
                        else True);
                     directionMatch =
                       (if \<not> directionMatch
                           \<and> count_bits (get_transitions_cell (rail env) new_cell) = 1
                        then directionMatch
                             \<or> get_transition (rail env) (new_cell, (cur_direction + 2) mod 4)
                                 cur_direction
                        else directionMatch)
                 in if transitionValid \<and> directionMatch
                    then (case np_index3 (shape b)
                                 (int target_nr, fst new_cell, snd new_cell) of
                            None \<Rightarrow> Inl IndexError
                          | Some row \<Rightarrow> Inl ValueError)
                    else neighbors_by_row b env cur_position target_nr
                           enforce_target_direction rest
          else neighbors_by_row b env cur_position target_nr enforce_target_direction rest)"

text \<open>
  Second loop (lines 183-220): the inner loop over \<open>agent_orientation\<close>, then the loop over
  \<open>possible_directions\<close>. Here the distance map is read and written one orientation at a
  time.
\<close>

fun update_orientations ::
  "tree_env \<Rightarrow> nat \<Rightarrow> enat \<Rightarrow> pos \<Rightarrow> int \<Rightarrow> int list \<Rightarrow> node list \<times> tree_obs
     \<Rightarrow> py_error + node list \<times> tree_obs" where
  "update_orientations env target_nr current_distance new_cell desired [] nb = Inr nb"
| "update_orientations env target_nr current_distance new_cell desired
     (agent_orientation # rest) nb =
     (if get_transition (rail env) (new_cell, agent_orientation) desired
      then case dm_read (snd nb)
                  (int target_nr, fst new_cell, snd new_cell, agent_orientation) of
             Inl e \<Rightarrow> Inl e
           | Inr old_distance \<Rightarrow>
               (let new_distance = min old_distance (current_distance + 1)
                in case dm_write (snd nb)
                          (int target_nr, fst new_cell, snd new_cell, agent_orientation)
                          new_distance of
                     Inl e \<Rightarrow> Inl e
                   | Inr b' \<Rightarrow>
                       update_orientations env target_nr current_distance new_cell desired rest
                         (fst nb @ [(fst new_cell, snd new_cell, agent_orientation, new_distance)],
                          b'))
      else update_orientations env target_nr current_distance new_cell desired rest nb)"

fun neighbors_by_direction ::
  "tree_env \<Rightarrow> pos \<Rightarrow> nat \<Rightarrow> enat \<Rightarrow> int list \<Rightarrow> node list \<times> tree_obs
     \<Rightarrow> py_error + node list \<times> tree_obs" where
  "neighbors_by_direction env cur_position target_nr current_distance [] nb = Inr nb"
| "neighbors_by_direction env cur_position target_nr current_distance (neigh_direction # rest) nb =
     (case new_position cur_position neigh_direction of
        None \<Rightarrow> Inl TypeError
      | Some new_cell \<Rightarrow>
          if in_grid env new_cell
          then case update_orientations env target_nr current_distance new_cell
                      ((neigh_direction + 2) mod 4) [0, 1, 2, 3] nb of
                 Inl e \<Rightarrow> Inl e
               | Inr nb' \<Rightarrow>
                   neighbors_by_direction env cur_position target_nr current_distance rest nb'
          else neighbors_by_direction env cur_position target_nr current_distance rest nb)"

definition get_and_update_neighbors ::
  "tree_obs \<Rightarrow> tree_env \<Rightarrow> pos \<Rightarrow> nat \<Rightarrow> enat \<Rightarrow> int
     \<Rightarrow> py_error + node list \<times> tree_obs" where
  "get_and_update_neighbors b env cur_position target_nr current_distance enforce_target_direction =
     (case neighbors_by_row b env cur_position target_nr enforce_target_direction [0, 1, 2, 3] of
        Inl e \<Rightarrow> Inl e
      | Inr u \<Rightarrow>
          neighbors_by_direction env cur_position target_nr current_distance
            (if enforce_target_direction \<ge> 0 then [(enforce_target_direction + 2) mod 4]
             else [0, 1, 2, 3])
            ([], b))"

text \<open>
  The \<open>while nodes_queue\<close> loop of \<open>_distance_map_walker\<close>; \<open>None\<close> is a loop that does
  not end. A node is \<open>(row, column, direction, distance)\<close>.
\<close>

partial_function (option) walker_loop ::
  "tree_env \<Rightarrow> nat \<Rightarrow> node list \<Rightarrow> (int \<times> int \<times> int) set \<Rightarrow> tree_obs \<Rightarrow> enat
     \<Rightarrow> (py_error + tree_obs \<times> enat) option" where
  "walker_loop env target_nr nodes_queue visited b max_distance =
     (case nodes_queue of
        [] \<Rightarrow> Some (Inr (b, max_distance))
      | node # queue \<Rightarrow>
          (let node_id = (fst node, fst (snd node), fst (snd (snd node)))
           in if node_id \<notin> visited
              then case get_and_update_neighbors b env (fst node, fst (snd node)) target_nr
                          (snd (snd (snd node))) (fst (snd (snd node))) of
                     Inl e \<Rightarrow> Some (Inl e)
                   | Inr (valid_neighbors, b') \<Rightarrow>
                       walker_loop env target_nr (queue @ valid_neighbors)
                         (insert node_id visited) b'
                         (if length valid_neighbors > 0
                          then max max_distance (snd (snd (snd node)) + 1)
                          else max_distance)
              else walker_loop env target_nr queue visited b max_distance))"

text \<open>\<open>_distance_map_walker\<close>: lines 85-86 (\<open>zero_target\<close>), then the queue and the loop.\<close>

fun zero_target :: "tree_obs \<Rightarrow> nat \<Rightarrow> pos \<Rightarrow> int list \<Rightarrow> py_error + tree_obs" where
  "zero_target b target_nr cur_position [] = Inr b"
| "zero_target b target_nr cur_position (ori # rest) =
     (case dm_write b (int target_nr, fst cur_position, snd cur_position, ori) 0 of
        Inl e \<Rightarrow> Inl e
      | Inr b' \<Rightarrow> zero_target b' target_nr cur_position rest)"

definition distance_map_walker ::
  "tree_obs \<Rightarrow> tree_env \<Rightarrow> pos \<Rightarrow> nat \<Rightarrow> (py_error + tree_obs \<times> enat) option" where
  "distance_map_walker b env cur_position target_nr =
     (case zero_target b target_nr cur_position [0, 1, 2, 3] of
        Inl e \<Rightarrow> Some (Inl e)
      | Inr b \<Rightarrow>
          (case get_and_update_neighbors b env cur_position target_nr 0 (- 1) of
             Inl e \<Rightarrow> Some (Inl e)
           | Inr (neighbors, b) \<Rightarrow>
               walker_loop env target_nr neighbors
                 {(fst cur_position, snd cur_position, 0), (fst cur_position, snd cur_position, 1),
                  (fst cur_position, snd cur_position, 2), (fst cur_position, snd cur_position, 3)}
                 b 0))"

text \<open>
  \<open>reset\<close>. \<open>np.ones\<close> raises \<open>ValueError\<close> for a negative extent; \<open>reset_agents\<close> is
  the loop over the agents.
\<close>

fun reset_agents :: "tree_env \<Rightarrow> nat list \<Rightarrow> tree_obs \<Rightarrow> (py_error + tree_obs) option" where
  "reset_agents env [] b = Some (Inr b)"
| "reset_agents env (i # rest) b =
     (if i \<ge> length (agents_target env) then Some (Inl IndexError)
      else case distance_map_walker b env (agents_target env ! i) i of
             None \<Rightarrow> None
           | Some (Inl e) \<Rightarrow> Some (Inl e)
           | Some (Inr (b', max_distance)) \<Rightarrow>
               reset_agents env rest (b'\<lparr>max_dist := (max_dist b')(i := max_distance)\<rparr>))"

definition reset :: "tree_obs \<Rightarrow> tree_env \<Rightarrow> (py_error + tree_obs) option" where
  "reset b env =
     (if height env < 0 \<or> width env < 0 then Some (Inl ValueError)
      else case reset_agents env [0..<number_of_agents env]
                  (b\<lparr>shape := (int (number_of_agents env), height env, width env),
                     distance_map := (\<lambda>k. \<infinity>), max_dist := (\<lambda>i. 0)\<rparr>) of
             None \<Rightarrow> None
           | Some (Inl e) \<Rightarrow> Some (Inl e)
           | Some (Inr b') \<Rightarrow> Some (Inr (b'\<lparr>location_has_target := set (agents_target env)\<rparr>)))"

subsection \<open>The observation\<close>











section \<open>Predicates used in the statements\<close>

text \<open>
  What \<open>exit_cell\<close> does when it moves an agent from \<open>agent\<close> to \<open>agent'\<close>: the
  only place where an agent changes cell.
\<close>

definition cell_change :: "rail_env \<Rightarrow> env_agent \<Rightarrow> env_agent \<Rightarrow> bool" where
  "cell_change env agent agent' \<longleftrightarrow>
     get_new_position (position agent) (direction agent') = Some (position agent')
     \<and> position_fraction agent' = 0
     \<and> position agent' \<notin> set (map position (agents env))
     \<and> get_transition (rail env) (position agent, direction agent) (direction agent')"

text \<open>
  \<open>all([new_cell_isValid, transition_isValid])\<close>: the test that \<open>step\<close> makes on the result
  of \<open>_check_action_on_agent\<close> before it stores an action.
\<close>

definition action_is_valid :: "rail_env \<Rightarrow> int \<Rightarrow> env_agent \<Rightarrow> bool" where
  "action_is_valid env action agent =
     (case check_action_on_agent env action agent of
        Inr (cell_isFree, new_cell_isValid, new_direction, new_cell, transition_isValid) \<Rightarrow>
          new_cell_isValid \<and> transition_isValid
      | Inl e \<Rightarrow> False)"

text \<open>
  Lines 324-329: the cell that a move leads to lies on the grid (\<open>np.clip\<close> leaves it
  as it is) and holds some rail.
\<close>

definition cell_is_valid :: "rail_env \<Rightarrow> pos \<Rightarrow> bool" where
  "cell_is_valid env new_cell =
     (new_cell = (min (height env - 1) (max 0 (fst new_cell)),
                  min (width env - 1) (max 0 (snd new_cell)))
      \<and> get_transitions_cell (rail env) new_cell > 0)"

text \<open>
  The tick of agent \<open>iAgent\<close> ends at one of the two \<open>continue\<close> statements (lines 276 and
  283): its action is invalid, and so is the move-forward tried in its place.
\<close>

definition ends_tick_early :: "rail_env \<Rightarrow> (nat \<rightharpoonup> int) \<Rightarrow> nat \<Rightarrow> bool" where
  "ends_tick_early env action_dict iAgent =
     (let agent = agents env ! iAgent;
          action = select_action action_dict iAgent agent
      in case choose_transition env action (halt_or_start action (agent, 0)) of
           Inr (Skipped _ _) \<Rightarrow> True
         | _ \<Rightarrow> False)"

section \<open>Example environments\<close>

text \<open>
  A one-row corridor of three cells, each allowing to go on eastwards (bit \<open>1*4 + 1\<close>) and
  westwards (bit \<open>3*4 + 3\<close>), with trains heading east for the last cell.
\<close>

definition corridor :: grid_transition_map where
  "corridor = \<lparr>gheight = 1, gwidth = 3, grid = (\<lambda>p. 0x8020)\<rparr>"

definition train :: "pos \<Rightarrow> env_agent" where
  "train p = \<lparr>position = p, direction = 1, target = (0, 2), moving = False, speed = 1,
     position_fraction = 0, transition_action_on_cellexit = 0,
     old_direction = None, old_position = None\<rparr>"

definition two_trains :: rail_env where
  "two_trains = \<lparr>height = 1, width = 3, rail = corridor,
     agents = [train (0, 0), train (0, 1)],
     agents_static = [\<lparr>s_position = (0, 0), s_direction = 1, s_target = (0, 2)\<rparr>,
                      \<lparr>s_position = (0, 1), s_direction = 1, s_target = (0, 2)\<rparr>],
     dones = [0 \<mapsto> False, 1 \<mapsto> False], dones_all = False, rewards_dict = Map.empty\<rparr>"

definition both_forward :: "nat \<rightharpoonup> int" where
  "both_forward = [0 \<mapsto> MOVE_FORWARD, 1 \<mapsto> MOVE_FORWARD]"

definition second_arrived :: rail_env where
  "second_arrived = \<lparr>height = 1, width = 3, rail = corridor,
     agents = [train (0, 0), train (0, 2)],
     agents_static = [\<lparr>s_position = (0, 0), s_direction = 1, s_target = (0, 2)\<rparr>,
                      \<lparr>s_position = (0, 2), s_direction = 1, s_target = (0, 2)\<rparr>],
     dones = [0 \<mapsto> False, 1 \<mapsto> True], dones_all = False, rewards_dict = Map.empty\<rparr>"

definition all_arrived :: rail_env where
  "all_arrived = \<lparr>height = 1, width = 3, rail = corridor,
     agents = [train (0, 2)],
     agents_static = [\<lparr>s_position = (0, 2), s_direction = 1, s_target = (0, 2)\<rparr>],
     dones = [0 \<mapsto> True], dones_all = True, rewards_dict = Map.empty\<rparr>"

text \<open>One train on the corridor, at \<open>p\<close> and bound for \<open>t\<close>.\<close>

definition one_train :: "pos \<Rightarrow> pos \<Rightarrow> rail_env" where
  "one_train p t = \<lparr>height = 1, width = 3, rail = corridor,
     agents = [(train p)\<lparr>target := t\<rparr>],
     agents_static = [\<lparr>s_position = p, s_direction = 1, s_target = t\<rparr>],
     dones = [0 \<mapsto> False], dones_all = False, rewards_dict = Map.empty\<rparr>"

text \<open>A dead end: the only transition of the cell turns a train heading east back west.\<close>

definition dead_end_rail :: grid_transition_map where
  "dead_end_rail = \<lparr>gheight = 1, gwidth = 2, grid = (\<lambda>p. if p = (0, 1) then 0x80 else 0x8020)\<rparr>"

definition at_dead_end :: rail_env where
  "at_dead_end = \<lparr>height = 1, width = 2, rail = dead_end_rail,
     agents = [(train (0, 1))\<lparr>target := (0, 0)\<rparr>],
     agents_static = [\<lparr>s_position = (0, 1), s_direction = 1, s_target = (0, 0)\<rparr>],
     dones = [0 \<mapsto> False], dones_all = False, rewards_dict = Map.empty\<rparr>"

text \<open>
  The same dead end in the first column: the way back, westwards, leaves the grid.
\<close>

definition edge_rail :: grid_transition_map where
  "edge_rail = \<lparr>gheight = 1, gwidth = 2, grid = (\<lambda>p. if p = (0, 0) then 0x80 else 0x8020)\<rparr>"

definition at_edge :: rail_env where
  "at_edge = \<lparr>height = 1, width = 2, rail = edge_rail,
     agents = [(train (0, 0))\<lparr>target := (0, 1)\<rparr>],
     agents_static = [\<lparr>s_position = (0, 0), s_direction = 1, s_target = (0, 1)\<rparr>],
     dones = [0 \<mapsto> False], dones_all = False, rewards_dict = Map.empty\<rparr>"

text \<open>
  The observation builder on the corridor: one agent at the west end heading east, bound
  for the east end, with the distance map that the claims describe.
\<close>

definition corridor_env :: tree_env where
  "corridor_env = \<lparr>height = 1, width = 3, rail = corridor, number_of_agents = 1,
     agents_target = [(0, 2)], agents_position = [(0, 0)], agents_direction = [1]\<rparr>"

definition corridor_obs :: tree_obs where
  "corridor_obs = \<lparr>max_depth = 2, shape = (1, 1, 3),
     distance_map = (\<lambda>(a, r, c, ori). if c = 2 then 0 else if ori = 1 then enat (2 - c) else \<infinity>),
     max_dist = (\<lambda>i. 2), location_has_target = {(0, 2)}, location_has_agent = {}\<rparr>"








section \<open>Properties of the step engine\<close>

lemmas engine_defs = step_def step_agent_def agent_tick_def exit_cell_def advance_def
  choose_transition_def forced_stop_def halt_or_start_def select_action_def
  check_action_on_agent_def check_action_def get_new_position_def get_transitions_def
  get_transition_def get_transitions_cell_def count_nonzero_def get_num_agents_def
  len_RailEnvActions_def invalid_action_penalty_def step_penalty_def global_reward_def
  stop_penalty_def start_penalty_def Let_def

lemmas example_defs = corridor_def train_def two_trains_def both_forward_def
  second_arrived_def all_arrived_def dead_end_rail_def at_dead_end_def one_train_def
  edge_rail_def at_edge_def

subsection \<open>Transitions and actions\<close>

lemma argmax_less: "bs \<noteq> [] \<Longrightarrow> argmax bs < length bs"
proof (induction bs)
  case Nil
  then show ?case by simp
next
  case (Cons b bs)
  show ?case
  proof (cases "\<exists>x \<in> set bs. x")
    case True
    then have "bs \<noteq> []" by auto
    with Cons.IH show ?thesis by simp
  next
    case False
    then show ?thesis by auto
  qed
qed

lemma argmax_nth: "\<exists>x \<in> set bs. x \<Longrightarrow> bs ! argmax bs"
  by (induction bs) auto

lemma count_nonzero_pos: "0 < count_nonzero bs \<Longrightarrow> \<exists>x \<in> set bs. x"
  by (induction bs) (auto simp: count_nonzero_def split: if_splits)

lemma length_get_transitions [simp]: "length (get_transitions m cell) = 4"
  by (simp add: get_transitions_def)

lemma get_transitions_nth:
  "k < 4 \<Longrightarrow> get_transitions m cell ! k = get_transition m cell (int k)"
proof -
  assume "k < 4"
  then have "k = 0 \<or> k = 1 \<or> k = 2 \<or> k = 3" by arith
  then show ?thesis by (auto simp: get_transitions_def)
qed

lemma check_action_range:
  "0 \<le> fst (check_action env agent action) \<and> fst (check_action env agent action) < 4"
proof -
  have "argmax (get_transitions (rail env) (position agent, direction agent)) < 4"
    using argmax_less [of "get_transitions (rail env) (position agent, direction agent)"]
    by (simp add: get_transitions_def)
  then show ?thesis
    by (simp add: check_action_def Let_def)
qed

lemma check_action_Some_True:
  assumes "snd (check_action env agent action) = Some True"
  shows "get_transition (rail env) (position agent, direction agent) (fst (check_action env agent action))"
proof -
  let ?pt = "get_transitions (rail env) (position agent, direction agent)"
  from assms have fw: "action = MOVE_FORWARD" and one: "count_nonzero ?pt = 1"
    by (auto simp: check_action_def Let_def split: if_splits)
  from one have "\<exists>x \<in> set ?pt. x" by (simp add: count_nonzero_pos)
  then have "?pt ! argmax ?pt" by (rule argmax_nth)
  moreover have "argmax ?pt < 4" using argmax_less [of ?pt] by (simp add: get_transitions_def)
  ultimately have "get_transition (rail env) (position agent, direction agent) (int (argmax ?pt))"
    by (simp add: get_transitions_nth)
  with fw one show ?thesis by (simp add: check_action_def Let_def)
qed

lemma get_new_position_Some:
  "0 \<le> d \<Longrightarrow> d < 4 \<Longrightarrow> \<exists>p. get_new_position p0 d = Some p"
  by (auto simp: get_new_position_def)

lemma get_new_position_neq:
  "get_new_position p d = Some q \<Longrightarrow> q \<noteq> p"
  by (cases p) (auto simp: get_new_position_def split: if_splits)

lemma check_action_on_agent_Inr:
  "\<exists>cell_isFree new_cell_isValid new_direction new_cell transition_isValid.
     check_action_on_agent env action agent =
       Inr (cell_isFree, new_cell_isValid, new_direction, new_cell, transition_isValid)
     \<and> 0 \<le> new_direction \<and> new_direction < 4
     \<and> get_new_position (position agent) new_direction = Some new_cell
     \<and> cell_isFree = (new_cell \<notin> set (map position (agents env)))
     \<and> (transition_isValid \<longrightarrow>
          get_transition (rail env) (position agent, direction agent) new_direction)"
proof -
  let ?nd = "fst (check_action env agent action)"
  have r: "0 \<le> ?nd \<and> ?nd < 4" by (rule check_action_range)
  then obtain p where p: "get_new_position (position agent) ?nd = Some p"
    using get_new_position_Some by blast
  show ?thesis
    using r p check_action_Some_True [of env agent action]
    by (auto simp: check_action_on_agent_def Let_def split: option.splits)
qed

subsection \<open>One agent's tick\<close>

lemma halt_or_start_frame:
  "position (fst (halt_or_start action ar)) = position (fst ar)
   \<and> direction (fst (halt_or_start action ar)) = direction (fst ar)
   \<and> target (fst (halt_or_start action ar)) = target (fst ar)
   \<and> speed (fst (halt_or_start action ar)) = speed (fst ar)
   \<and> position_fraction (fst (halt_or_start action ar)) = position_fraction (fst ar)
   \<and> snd (halt_or_start action ar) = snd ar"
  by (simp add: halt_or_start_def Let_def stop_penalty_def start_penalty_def)

lemma choose_transition_Inr:
  "\<exists>sel. choose_transition env action ar = Inr sel"
proof -
  obtain f v d p t where a: "check_action_on_agent env action (fst ar) = Inr (f, v, d, p, t)"
    using check_action_on_agent_Inr [of env action "fst ar"] by blast
  obtain f' v' d' p' t' where b: "check_action_on_agent env MOVE_FORWARD (fst ar) = Inr (f', v', d', p', t')"
    using check_action_on_agent_Inr [of env MOVE_FORWARD "fst ar"] by blast
  show ?thesis
    by (simp add: choose_transition_def a b)
qed

lemma choose_transition_Selected:
  "choose_transition env action ar = Inr (Selected agent r sel) \<Longrightarrow>
     position agent = position (fst ar) \<and> direction agent = direction (fst ar)
     \<and> target agent = target (fst ar) \<and> speed agent = speed (fst ar)
     \<and> moving agent = moving (fst ar)
     \<and> position_fraction agent = position_fraction (fst ar) \<and> r = snd ar"
  by (auto simp: choose_transition_def forced_stop_def split: if_splits sum.splits prod.splits)

lemma choose_transition_Skipped:
  "choose_transition env action ar = Inr (Skipped agent r) \<Longrightarrow>
     agent = (fst ar)\<lparr>moving := False\<rparr> \<and> r = snd ar \<and> position_fraction (fst ar) = 0"
  by (auto simp: choose_transition_def forced_stop_def invalid_action_penalty_def stop_penalty_def
      split: if_splits sum.splits prod.splits)

lemma advance_frame:
  "position (advance sel agent) = position agent \<and> direction (advance sel agent) = direction agent
   \<and> target (advance sel agent) = target agent \<and> speed (advance sel agent) = speed agent
   \<and> moving (advance sel agent) = moving agent"
  by (simp add: advance_def)

lemma exit_cell_cases:
  "\<exists>agent'. exit_cell env agent = Inr agent'
     \<and> target agent' = target agent \<and> speed agent' = speed agent \<and> moving agent' = moving agent
     \<and> (agent' = agent \<or> cell_change env agent agent')"
proof -
  obtain f v d p t where a:
    "check_action_on_agent env (transition_action_on_cellexit agent) agent = Inr (f, v, d, p, t)"
    "get_new_position (position agent) d = Some p"
    "f = (p \<notin> set (map position (agents env)))"
    "t \<longrightarrow> get_transition (rail env) (position agent, direction agent) d"
    using check_action_on_agent_Inr [of env "transition_action_on_cellexit agent" agent] by blast
  show ?thesis
    using a by (auto simp: exit_cell_def cell_change_def)
qed

lemma agent_tick_cases:
  "\<exists>agent' r' d. agent_tick env action (agent, r) = Inr (agent', r', d)
     \<and> target agent' = target agent \<and> speed agent' = speed agent
     \<and> (d \<longrightarrow> position agent' = target agent')
     \<and> ((position agent' = position agent \<and> direction agent' = direction agent)
          \<or> cell_change env agent agent')"
proof -
  let ?ar = "halt_or_start action (agent, r)"
  note hs = halt_or_start_frame [of action "(agent, r)", simplified]
  obtain sel where sel: "choose_transition env action ?ar = Inr sel"
    using choose_transition_Inr by blast
  show ?thesis
  proof (cases sel)
    case (Skipped a r1)
    with sel have "a = (fst ?ar)\<lparr>moving := False\<rparr>"
      using choose_transition_Skipped by blast
    with Skipped sel hs show ?thesis by (auto simp: agent_tick_def)
  next
    case (Selected a r1 s)
    with sel have fr: "position a = position agent" "direction a = direction agent"
      "target a = target agent" "speed a = speed agent"
      using choose_transition_Selected [of env action ?ar a r1 s] hs by simp_all
    let ?b = "advance s a"
    have adv: "position ?b = position agent" "direction ?b = direction agent"
      "target ?b = target agent" "speed ?b = speed agent"
      using advance_frame [of s a] fr by simp_all
    obtain c where c: "exit_cell env ?b = Inr c" "target c = target ?b" "speed c = speed ?b"
      "c = ?b \<or> cell_change env ?b c"
      using exit_cell_cases [of env ?b] by blast
    from c(4) adv have "(position c = position agent \<and> direction c = direction agent)
          \<or> cell_change env agent c"
      by (auto simp: cell_change_def)
    with c adv Selected sel show ?thesis by (auto simp: agent_tick_def)
  qed
qed

subsection \<open>One iteration of the loop\<close>

lemma step_agent_cases:
  assumes "step_agent action_dict i env = Inr env'"
  obtains
    (finished) "i < length (agents env)" "dones env i = Some True"
      "env' = env\<lparr>agents := (agents env)[i := (agents env ! i)
                 \<lparr>old_direction := Some (direction (agents env ! i)),
                  old_position := Some (position (agents env ! i))\<rparr>]\<rparr>"
  | (ticked) r0 agent' r' d where "i < length (agents env)" "dones env i = Some False"
      "rewards_dict env i = Some r0"
      "agent_tick env
         (select_action action_dict i ((agents env ! i)
                 \<lparr>old_direction := Some (direction (agents env ! i)),
                  old_position := Some (position (agents env ! i))\<rparr>))
         ((agents env ! i)
                 \<lparr>old_direction := Some (direction (agents env ! i)),
                  old_position := Some (position (agents env ! i))\<rparr>, r0) = Inr (agent', r', d)"
      "env' = env\<lparr>agents := (agents env)[i := agent'],
                  rewards_dict := (rewards_dict env)(i \<mapsto> r'),
                  dones := (if d then (dones env)(i \<mapsto> True) else dones env)\<rparr>"
  using assms
  by (auto simp: step_agent_def Let_def split: if_splits option.splits bool.splits sum.splits prod.splits)

lemma step_agent_frame:
  assumes "step_agent action_dict i env = Inr env'"
  shows "length (agents env') = length (agents env) \<and> rail env' = rail env
     \<and> height env' = height env \<and> width env' = width env
     \<and> agents_static env' = agents_static env \<and> dones_all env' = dones_all env
     \<and> i < length (agents env)
     \<and> (j \<noteq> i \<longrightarrow> agents env' ! j = agents env ! j \<and> dones env' j = dones env j
                  \<and> rewards_dict env' j = rewards_dict env j)"
  using assms by (cases rule: step_agent_cases) auto

lemma step_agent_change:
  assumes "step_agent action_dict i env = Inr env'"
  shows "target (agents env' ! i) = target (agents env ! i)
     \<and> speed (agents env' ! i) = speed (agents env ! i)
     \<and> ((position (agents env' ! i) = position (agents env ! i)
          \<and> direction (agents env' ! i) = direction (agents env ! i))
         \<or> cell_change env (agents env ! i) (agents env' ! i))"
  using assms
proof (cases rule: step_agent_cases)
  case finished
  then show ?thesis by simp
next
  case (ticked r0 agent' r' d)
  let ?a = "(agents env ! i)\<lparr>old_direction := Some (direction (agents env ! i)),
                  old_position := Some (position (agents env ! i))\<rparr>"
  from agent_tick_cases [of env "select_action action_dict i ?a" ?a r0] ticked(4)
  have "target agent' = target ?a \<and> speed agent' = speed ?a
     \<and> ((position agent' = position ?a \<and> direction agent' = direction ?a)
          \<or> cell_change env ?a agent')" by auto
  with ticked(1,5) show ?thesis by (auto simp: cell_change_def)
qed

lemma step_agent_finished:
  assumes "step_agent action_dict i env = Inr env'" and "dones env i = Some True"
  shows "dones env' i = Some True
     \<and> position (agents env' ! i) = position (agents env ! i)
     \<and> direction (agents env' ! i) = direction (agents env ! i)
     \<and> moving (agents env' ! i) = moving (agents env ! i)
     \<and> position_fraction (agents env' ! i) = position_fraction (agents env ! i)"
  using assms by (cases rule: step_agent_cases) auto

lemma step_agent_dones_mono:
  assumes "step_agent action_dict i env = Inr env'" and "dones env j = Some True"
  shows "dones env' j = Some True"
  using assms by (cases rule: step_agent_cases) auto

lemma step_agent_dones_dom:
  assumes "step_agent action_dict i env = Inr env'"
  shows "(dones env' j = None) = (dones env j = None)"
  using assms by (cases rule: step_agent_cases) auto

lemma step_agent_distinct:
  assumes "step_agent action_dict i env = Inr env'"
    and "distinct (map position (agents env))"
  shows "distinct (map position (agents env'))"
proof -
  let ?ps = "map position (agents env)"
  from assms(1) have len: "i < length (agents env)" "length (agents env') = length (agents env)"
    and others: "\<And>j. j \<noteq> i \<Longrightarrow> agents env' ! j = agents env ! j"
    using step_agent_frame [OF assms(1)] by auto
  have eq: "map position (agents env') = ?ps[i := position (agents env' ! i)]"
    using len others by (auto simp: list_eq_iff_nth_eq nth_list_update)
  from step_agent_change [OF assms(1)]
  consider "position (agents env' ! i) = position (agents env ! i)"
    | "position (agents env' ! i) \<notin> set ?ps"
    by (auto simp: cell_change_def)
  then show ?thesis
  proof cases
    case 1
    with len have "?ps[i := position (agents env' ! i)] = ?ps"
      by (simp add: list_update_same_conv)
    with eq assms(2) show ?thesis by simp
  next
    case 2
    with assms(2) have "distinct (?ps[i := position (agents env' ! i)])"
      by (intro distinct_list_update) auto
    with eq show ?thesis by simp
  qed
qed

subsection \<open>The loop over the agents\<close>

lemma step_agents_append:
  "step_agents action_dict (xs @ ys) env =
     (case step_agents action_dict xs env of Inl e \<Rightarrow> Inl e
      | Inr env1 \<Rightarrow> step_agents action_dict ys env1)"
  by (induction xs arbitrary: env) (auto split: sum.splits)

lemma step_agents_frame:
  "step_agents action_dict xs env = Inr env' \<Longrightarrow>
     length (agents env') = length (agents env) \<and> rail env' = rail env
     \<and> height env' = height env \<and> width env' = width env
     \<and> agents_static env' = agents_static env \<and> dones_all env' = dones_all env
     \<and> (j \<notin> set xs \<longrightarrow> agents env' ! j = agents env ! j \<and> dones env' j = dones env j
                  \<and> rewards_dict env' j = rewards_dict env j)"
proof (induction xs arbitrary: env)
  case Nil
  then show ?case by simp
next
  case (Cons i xs)
  from Cons.prems obtain env1 where e1: "step_agent action_dict i env = Inr env1"
    and rest: "step_agents action_dict xs env1 = Inr env'"
    by (auto split: sum.splits)
  from step_agent_frame [OF e1, of j] Cons.IH [OF rest] show ?case by auto
qed

lemma step_agents_distinct:
  "step_agents action_dict xs env = Inr env' \<Longrightarrow> distinct (map position (agents env)) \<Longrightarrow>
     distinct (map position (agents env'))"
proof (induction xs arbitrary: env)
  case Nil
  then show ?case by simp
next
  case (Cons i xs)
  from Cons.prems(1) obtain env1 where e1: "step_agent action_dict i env = Inr env1"
    and rest: "step_agents action_dict xs env1 = Inr env'"
    by (auto split: sum.splits)
  from step_agent_distinct [OF e1 Cons.prems(2)] Cons.IH [OF rest] show ?case by simp
qed

lemma step_agents_dones_mono:
  "step_agents action_dict xs env = Inr env' \<Longrightarrow> dones env j = Some True \<Longrightarrow>
     dones env' j = Some True"
proof (induction xs arbitrary: env)
  case Nil
  then show ?case by simp
next
  case (Cons i xs)
  from Cons.prems(1) obtain env1 where e1: "step_agent action_dict i env = Inr env1"
    and rest: "step_agents action_dict xs env1 = Inr env'"
    by (auto split: sum.splits)
  from step_agent_dones_mono [OF e1 Cons.prems(2)] Cons.IH [OF rest] show ?case by simp
qed

text \<open>
  In a loop over distinct indices, agent \<open>j\<close> is processed by exactly one iteration; the
  environments before and after it agree on agent \<open>j\<close> with the start and the end of the loop.
\<close>

lemma step_agents_pick:
  assumes "step_agents action_dict xs env = Inr env'" and "distinct xs" and "j \<in> set xs"
  shows "\<exists>env1 env2. step_agent action_dict j env1 = Inr env2
     \<and> rail env1 = rail env \<and> height env1 = height env \<and> width env1 = width env
     \<and> length (agents env1) = length (agents env)
     \<and> agents env1 ! j = agents env ! j \<and> dones env1 j = dones env j
     \<and> rewards_dict env1 j = rewards_dict env j
     \<and> agents env' ! j = agents env2 ! j \<and> dones env' j = dones env2 j
     \<and> rewards_dict env' j = rewards_dict env2 j"
  using assms
proof (induction xs arbitrary: env)
  case Nil
  then show ?case by simp
next
  case (Cons i xs)
  from Cons.prems(1) obtain e1 where e1: "step_agent action_dict i env = Inr e1"
    and rest: "step_agents action_dict xs e1 = Inr env'"
    by (auto split: sum.splits)
  show ?case
  proof (cases "j = i")
    case True
    with Cons.prems(2) have "j \<notin> set xs" by simp
    with step_agents_frame [OF rest, of j]
    have "agents env' ! j = agents e1 ! j \<and> dones env' j = dones e1 j
                  \<and> rewards_dict env' j = rewards_dict e1 j" by simp
    with e1 True show ?thesis by blast
  next
    case False
    with Cons.prems have "distinct xs" "j \<in> set xs" by auto
    from Cons.IH [OF rest this] obtain env1 env2 where
      *: "step_agent action_dict j env1 = Inr env2"
      "rail env1 = rail e1 \<and> height env1 = height e1 \<and> width env1 = width e1
     \<and> length (agents env1) = length (agents e1)
     \<and> agents env1 ! j = agents e1 ! j \<and> dones env1 j = dones e1 j
     \<and> rewards_dict env1 j = rewards_dict e1 j
     \<and> agents env' ! j = agents env2 ! j \<and> dones env' j = dones env2 j
     \<and> rewards_dict env' j = rewards_dict env2 j" by blast
    from step_agent_frame [OF e1, of j] False *(2)
    have "rail env1 = rail env \<and> height env1 = height env \<and> width env1 = width env
     \<and> length (agents env1) = length (agents env)
     \<and> agents env1 ! j = agents env ! j \<and> dones env1 j = dones env j
     \<and> rewards_dict env1 j = rewards_dict env j
     \<and> agents env' ! j = agents env2 ! j \<and> dones env' j = dones env2 j
     \<and> rewards_dict env' j = rewards_dict env2 j" by simp
    with *(1) show ?thesis by blast
  qed
qed

subsection \<open>A whole tick\<close>

lemma get_num_agents_rewards [simp]:
  "get_num_agents (env\<lparr>rewards_dict := x\<rparr>) = get_num_agents env"
  by (simp add: get_num_agents_def)

lemma step_cases:
  assumes "step env action_dict = Inr env'"
  obtains
    (all_done) "dones_all env"
      "env' = env\<lparr>rewards_dict :=
                 (\<lambda>i. if i < get_num_agents env then Some (0 + global_reward) else None)\<rparr>"
  | (ticked) env1 where "\<not> dones_all env"
      "step_agents action_dict [0..<get_num_agents env]
         (env\<lparr>rewards_dict := (\<lambda>i. if i < get_num_agents env then Some 0 else None)\<rparr>) = Inr env1"
      "agents env' = agents env1" "dones env' = dones env1" "rail env' = rail env1"
      "height env' = height env1" "width env' = width env1"
      "agents_static env' = agents_static env1"
      "env' = env1 \<or>
       (list_all (\<lambda>agent2. position agent2 = target agent2) (agents env1) \<and>
        env' = env1\<lparr>dones_all := True,
                   rewards_dict := map_option (\<lambda>r. 0 * r + global_reward) \<circ> rewards_dict env1\<rparr>)"
      "list_all (\<lambda>agent2. position agent2 = target agent2) (agents env1) \<or> env' = env1"
proof (cases "dones_all env")
  case True
  with assms have "env' = env\<lparr>rewards_dict :=
                 (\<lambda>i. if i < get_num_agents env then Some (0 + global_reward) else None)\<rparr>"
    by (auto simp: step_def Let_def get_num_agents_def fun_eq_iff)
  with True all_done show ?thesis by blast
next
  case False
  let ?e0 = "env\<lparr>rewards_dict := (\<lambda>i. if i < get_num_agents env then Some 0 else None)\<rparr>"
  from assms False obtain env1 where
    e1: "step_agents action_dict [0..<get_num_agents env] ?e0 = Inr env1"
    by (auto simp: step_def Let_def split: sum.splits)
  show ?thesis
  proof (cases "list_all (\<lambda>agent2. position agent2 = target agent2) (agents env1)")
    case True
    with assms False e1 have "env' = env1\<lparr>dones_all := True,
                   rewards_dict := map_option (\<lambda>r. 0 * r + global_reward) \<circ> rewards_dict env1\<rparr>"
      by (simp add: step_def Let_def)
    with False e1 True show ?thesis by (intro ticked [of env1]) simp_all
  next
    case F: False
    with assms False e1 have "env' = env1"
      by (simp add: step_def Let_def)
    with False e1 show ?thesis by (intro ticked [of env1]) simp_all
  qed
qed

lemma step_agent_rel:
  assumes "step env action_dict = Inr env'" and "i < length (agents env)"
  shows "(agents env' ! i = agents env ! i \<and> dones env' i = dones env i)
     \<or> (\<exists>env1 env2. step_agent action_dict i env1 = Inr env2
          \<and> rail env1 = rail env \<and> height env1 = height env \<and> width env1 = width env
          \<and> agents env1 ! i = agents env ! i \<and> dones env1 i = dones env i
          \<and> agents env' ! i = agents env2 ! i \<and> dones env' i = dones env2 i)"
  using assms(1)
proof (cases rule: step_cases)
  case all_done
  then show ?thesis by simp
next
  case (ticked e1)
  let ?e0 = "env\<lparr>rewards_dict := (\<lambda>i. if i < get_num_agents env then Some 0 else None)\<rparr>"
  show ?thesis
  proof (cases "i < get_num_agents env")
    case True
    then have "i \<in> set [0..<get_num_agents env]" by simp
    from step_agents_pick [OF ticked(2) _ this] ticked(3,4)
    show ?thesis by auto
  next
    case False
    then have "i \<notin> set [0..<get_num_agents env]" by simp
    with step_agents_frame [OF ticked(2), of i] ticked(3,4) show ?thesis by simp
  qed
qed

lemma step_distinct:
  assumes "step env action_dict = Inr env'" and "distinct (map position (agents env))"
  shows "distinct (map position (agents env'))"
  using assms(1)
proof (cases rule: step_cases)
  case all_done
  with assms(2) show ?thesis by simp
next
  case (ticked e1)
  from step_agents_distinct [OF ticked(2)] assms(2) ticked(3) show ?thesis by simp
qed

lemma step_move:
  assumes "step env action_dict = Inr env'" and "i < length (agents env)"
  shows "(position (agents env' ! i) \<noteq> position (agents env ! i) \<longrightarrow>
            position_fraction (agents env' ! i) = 0
          \<and> get_new_position (position (agents env ! i)) (direction (agents env' ! i))
              = Some (position (agents env' ! i))
          \<and> get_transition (rail env) (position (agents env ! i), direction (agents env ! i))
              (direction (agents env' ! i)))
     \<and> (position (agents env' ! i) = position (agents env ! i) \<longrightarrow>
            direction (agents env' ! i) = direction (agents env ! i))"
proof -
  from step_agent_rel [OF assms]
  consider "agents env' ! i = agents env ! i"
    | env1 env2 where "step_agent action_dict i env1 = Inr env2" "rail env1 = rail env"
        "agents env1 ! i = agents env ! i" "agents env' ! i = agents env2 ! i"
    by blast
  then show ?thesis
  proof cases
    case 1
    then show ?thesis by simp
  next
    case 2
    from step_agent_change [OF 2(1)] 2(2-4)
    have "(position (agents env' ! i) = position (agents env ! i)
          \<and> direction (agents env' ! i) = direction (agents env ! i))
         \<or> cell_change env1 (agents env ! i) (agents env' ! i)" by simp
    then show ?thesis
    proof
      assume "position (agents env' ! i) = position (agents env ! i)
          \<and> direction (agents env' ! i) = direction (agents env ! i)"
      then show ?thesis by simp
    next
      assume c: "cell_change env1 (agents env ! i) (agents env' ! i)"
      then have "get_new_position (position (agents env ! i)) (direction (agents env' ! i))
              = Some (position (agents env' ! i))" by (simp add: cell_change_def)
      then have "position (agents env' ! i) \<noteq> position (agents env ! i)"
        by (rule get_new_position_neq)
      with c 2(2) show ?thesis by (simp add: cell_change_def)
    qed
  qed
qed

lemma step_finished:
  assumes "step env action_dict = Inr env'" and "i < length (agents env)"
    and "dones env i = Some True"
  shows "dones env' i = Some True
     \<and> position (agents env' ! i) = position (agents env ! i)
     \<and> direction (agents env' ! i) = direction (agents env ! i)
     \<and> moving (agents env' ! i) = moving (agents env ! i)
     \<and> position_fraction (agents env' ! i) = position_fraction (agents env ! i)"
proof -
  from step_agent_rel [OF assms(1,2)]
  consider "agents env' ! i = agents env ! i" "dones env' i = dones env i"
    | env1 env2 where "step_agent action_dict i env1 = Inr env2"
        "agents env1 ! i = agents env ! i" "dones env1 i = dones env i"
        "agents env' ! i = agents env2 ! i" "dones env' i = dones env2 i"
    by blast
  then show ?thesis
  proof cases
    case 1
    with assms(3) show ?thesis by simp
  next
    case 2
    from 2(3) assms(3) have "dones env1 i = Some True" by simp
    from step_agent_finished [OF 2(1) this] 2(2,4,5) show ?thesis by simp
  qed
qed

lemma step_length:
  assumes "step env action_dict = Inr env'"
  shows "length (agents env') = length (agents env)"
  using assms
proof (cases rule: step_cases)
  case all_done
  then show ?thesis by simp
next
  case (ticked e1)
  from step_agents_frame [OF ticked(2)] ticked(3) show ?thesis by simp
qed

lemma run_steps_finished:
  "run_steps env action_dicts = Inr env' \<Longrightarrow> i < length (agents env) \<Longrightarrow>
   dones env i = Some True \<Longrightarrow>
     dones env' i = Some True
     \<and> position (agents env' ! i) = position (agents env ! i)
     \<and> direction (agents env' ! i) = direction (agents env ! i)
     \<and> moving (agents env' ! i) = moving (agents env ! i)
     \<and> position_fraction (agents env' ! i) = position_fraction (agents env ! i)"
proof (induction action_dicts arbitrary: env)
  case Nil
  then show ?case by simp
next
  case (Cons a rest)
  from Cons.prems(1) obtain e1 where e1: "step env a = Inr e1"
    and r: "run_steps e1 rest = Inr env'" by (auto split: sum.splits)
  from step_finished [OF e1 Cons.prems(2,3)] step_length [OF e1] Cons.prems(2)
    Cons.IH [OF r]
  show ?case by simp
qed

subsection \<open>Ticks that end early, ticks that run to the end\<close>

lemma action_is_valid_indep:
  assumes "rail env1 = rail env" "height env1 = height env" "width env1 = width env"
    "position a1 = position a" "direction a1 = direction a"
  shows "action_is_valid env1 action a1 = action_is_valid env action a"
proof -
  have "check_action env1 a1 action = check_action env a action"
    by (simp add: check_action_def Let_def assms)
  then have "map_sum id (\<lambda>(f, v, d, p, t). (v, t)) (check_action_on_agent env1 action a1)
      = map_sum id (\<lambda>(f, v, d, p, t). (v, t)) (check_action_on_agent env action a)"
    by (simp add: check_action_on_agent_def Let_def assms split: option.split)
  then show ?thesis
    by (auto simp: action_is_valid_def split: sum.splits)
qed

lemma choose_transition_skipped_iff:
  "(case choose_transition env action ar of Inr (Skipped a r) \<Rightarrow> True | _ \<Rightarrow> False) \<longleftrightarrow>
     position_fraction (fst ar) = 0 \<and> action \<noteq> DO_NOTHING \<and> action \<noteq> STOP_MOVING
     \<and> \<not> action_is_valid env action (fst ar)
     \<and> \<not> ((action = MOVE_LEFT \<or> action = MOVE_RIGHT) \<and> moving (fst ar)
            \<and> action_is_valid env MOVE_FORWARD (fst ar))"
proof -
  obtain f v d p t where a: "check_action_on_agent env action (fst ar) = Inr (f, v, d, p, t)"
    using check_action_on_agent_Inr [of env action "fst ar"] by blast
  obtain f' v' d' p' t' where b: "check_action_on_agent env MOVE_FORWARD (fst ar) = Inr (f', v', d', p', t')"
    using check_action_on_agent_Inr [of env MOVE_FORWARD "fst ar"] by blast
  show ?thesis
    by (auto simp: choose_transition_def action_is_valid_def forced_stop_def a b)
qed

lemma halt_or_start_moving_indep:
  assumes "moving a1 = moving a" "position_fraction a1 = position_fraction a"
  shows "moving (fst (halt_or_start action (a1, r1))) = moving (fst (halt_or_start action (a, r)))"
  using assms by (simp add: halt_or_start_def Let_def)

lemma skipped_indep:
  assumes "rail env1 = rail env" "height env1 = height env" "width env1 = width env"
    "position a1 = position a" "direction a1 = direction a"
    "moving a1 = moving a" "position_fraction a1 = position_fraction a"
  shows "(case choose_transition env1 action (halt_or_start action (a1, r1)) of
            Inr (Skipped a r) \<Rightarrow> True | _ \<Rightarrow> False)
       = (case choose_transition env action (halt_or_start action (a, r)) of
            Inr (Skipped a r) \<Rightarrow> True | _ \<Rightarrow> False)"
proof -
  let ?h1 = "halt_or_start action (a1, r1)" and ?h = "halt_or_start action (a, r)"
  have pd: "position (fst ?h1) = position (fst ?h)" "direction (fst ?h1) = direction (fst ?h)"
    "position_fraction (fst ?h1) = position_fraction (fst ?h)"
    using halt_or_start_frame [of action "(a1, r1)"] halt_or_start_frame [of action "(a, r)"] assms
    by simp_all
  have mv: "moving (fst ?h1) = moving (fst ?h)"
    using assms(6,7) by (rule halt_or_start_moving_indep)
  have v: "action_is_valid env1 x (fst ?h1) = action_is_valid env x (fst ?h)" for x
    using assms(1-3) pd(1,2) by (rule action_is_valid_indep)
  show ?thesis
    unfolding choose_transition_skipped_iff by (simp add: pd mv v)
qed

lemma select_action_touch:
  "select_action action_dict i (agent\<lparr>old_direction := x, old_position := y\<rparr>)
     = select_action action_dict i agent"
  by (simp add: select_action_def)

lemma agent_tick_completed:
  assumes "agent_tick env action (agent, r) = Inr (agent', r', d)"
    and "\<not> (case choose_transition env action (halt_or_start action (agent, r)) of
            Inr (Skipped a r) \<Rightarrow> True | _ \<Rightarrow> False)"
  shows "d = (position agent' = target agent')
     \<and> (\<not> d \<longrightarrow> r' = r + step_penalty * speed agent')"
proof -
  let ?ar = "halt_or_start action (agent, r)"
  obtain sel where sel: "choose_transition env action ?ar = Inr sel"
    using choose_transition_Inr by blast
  with assms(2) obtain a r1 s where s: "sel = Selected a r1 s"
    by (cases sel) auto
  with sel have "r1 = snd ?ar"
    using choose_transition_Selected [of env action ?ar a r1 s] by simp
  then have r1: "r1 = r" using halt_or_start_frame [of action "(agent, r)"] by simp
  obtain c where c: "exit_cell env (advance s a) = Inr c"
    using exit_cell_cases [of env "advance s a"] by blast
  from assms(1) sel s c r1 show ?thesis
    by (auto simp: agent_tick_def split: if_splits)
qed

lemma agent_tick_idle:
  assumes "\<not> moving agent" and "position_fraction agent < 1" and "position agent = target agent"
  shows "agent_tick env DO_NOTHING (agent, r) = Inr (agent, r, True)"
  using assms
  by (simp add: agent_tick_def choose_transition_def halt_or_start_def advance_def exit_cell_def)

lemma step_pick:
  assumes "step env action_dict = Inr env'" and "\<not> dones_all env" and "i < get_num_agents env"
  obtains env1 env2 where "step_agent action_dict i env1 = Inr env2"
    "rail env1 = rail env" "height env1 = height env" "width env1 = width env"
    "agents env1 ! i = agents env ! i" "dones env1 i = dones env i"
    "rewards_dict env1 i = Some 0"
    "agents env' ! i = agents env2 ! i" "dones env' i = dones env2 i"
    "rewards_dict env' i = rewards_dict env2 i
       \<or> list_all (\<lambda>agent2. position agent2 = target agent2) (agents env')"
    "i < length (agents env')"
  using assms(1)
proof (cases rule: step_cases)
  case all_done
  with assms(2) show ?thesis by simp
next
  case (ticked e1)
  let ?e0 = "env\<lparr>rewards_dict := (\<lambda>i. if i < get_num_agents env then Some 0 else None)\<rparr>"
  from assms(3) have "i \<in> set [0..<get_num_agents env]" by simp
  from step_agents_pick [OF ticked(2) _ this] obtain env1 env2 where
    p: "step_agent action_dict i env1 = Inr env2"
     "rail env1 = rail ?e0" "height env1 = height ?e0" "width env1 = width ?e0"
     "length (agents env1) = length (agents ?e0)"
     "agents env1 ! i = agents ?e0 ! i" "dones env1 i = dones ?e0 i"
     "rewards_dict env1 i = rewards_dict ?e0 i"
     "agents e1 ! i = agents env2 ! i" "dones e1 i = dones env2 i"
     "rewards_dict e1 i = rewards_dict env2 i"
    by auto
  from step_agent_frame [OF p(1)] p(5) step_agents_frame [OF ticked(2)] ticked(3)
  have len: "i < length (agents env')" by simp
  from ticked(9) ticked(3) p(11)
  have rw: "rewards_dict env' i = rewards_dict env2 i
       \<or> list_all (\<lambda>agent2. position agent2 = target agent2) (agents env')" by auto
  from p assms(3) ticked(3,4) len rw show ?thesis
    by (intro that [of env1 env2]) simp_all
qed

lemma single_bit: "\<exists>!k. k < 16 \<and> bit (0x80 :: 16 word) k"
proof -
  have "(0x80 :: 16 word) = 2 ^ 7" by simp
  then have "bit (0x80 :: 16 word) k \<longleftrightarrow> k = 7" for k
    by (simp only: bit_exp_iff) auto
  then show ?thesis by auto
qed

text \<open>At a dead end the one transition of the cell is the only exit.\<close>

lemma check_action_dead_end:
  assumes d: "direction agent = d" "0 \<le> d" "d < 4"
    and dead_end: "\<exists>!k. k < 16 \<and> bit (get_transitions_cell (rail env) (position agent)) k"
    and reversal: "get_transition (rail env) (position agent, d) ((d + 2) mod 4)"
  shows "check_action env agent MOVE_FORWARD = ((d + 2) mod 4, Some True)"
proof -
  let ?w = "get_transitions_cell (rail env) (position agent)"
  let ?k = "nat (d * 4 + (d + 2) mod 4)"
  from reversal have k: "bit ?w ?k" by (simp add: get_transition_def)
  from d have k16: "?k < 16" by simp
  have others: "\<not> bit ?w j" if "j < 16" "j \<noteq> ?k" for j
    using dead_end k k16 that by blast
  from d consider "d = 0" | "d = 1" | "d = 2" | "d = 3" by arith
  then have "check_action env agent MOVE_FORWARD = ((d + 2) mod 4, Some True)
    \<and> get_transitions (rail env) (position agent, d)
      = map (\<lambda>e. e = (d + 2) mod 4) [0, 1, 2, 3]"
  proof cases
    case 1
    with k others [of 0] others [of 1] others [of 3] show ?thesis
      by (simp add: get_transitions_def get_transition_def check_action_def count_nonzero_def d(1))
  next
    case 2
    with k others [of 4] others [of 5] others [of 6] show ?thesis
      by (simp add: get_transitions_def get_transition_def check_action_def count_nonzero_def d(1))
  next
    case 3
    with k others [of 9] others [of 10] others [of 11] show ?thesis
      by (simp add: get_transitions_def get_transition_def check_action_def count_nonzero_def d(1))
  next
    case 4
    with k others [of 12] others [of 14] others [of 15] show ?thesis
      by (simp add: get_transitions_def get_transition_def check_action_def count_nonzero_def d(1))
  qed
  then show ?thesis by simp
qed

text \<open>
  Move-forward at a dead end whose way back is a cell of the grid: what
  \<open>_check_action_on_agent\<close> answers, and what one tick of the agent does with it.
\<close>

lemma check_action_on_agent_dead_end:
  assumes "direction agent = d" and "0 \<le> d" and "d < 4"
    and "\<exists>!k. k < 16 \<and> bit (get_transitions_cell (rail env) (position agent)) k"
    and "get_transition (rail env) (position agent, d) ((d + 2) mod 4)"
    and "get_new_position (position agent) ((d + 2) mod 4) = Some behind"
  shows "check_action_on_agent env MOVE_FORWARD agent =
     Inr (behind \<notin> set (map position (agents env)), cell_is_valid env behind, (d + 2) mod 4, behind, True)"
proof -
  have "check_action env agent MOVE_FORWARD = ((d + 2) mod 4, Some True)"
    using assms(1-5) by (rule check_action_dead_end)
  with assms(6) show ?thesis
    by (simp add: check_action_on_agent_def cell_is_valid_def)
qed

lemma halt_or_start_forward:
  "moving (fst (halt_or_start MOVE_FORWARD (agent, r)))
   \<and> transition_action_on_cellexit (fst (halt_or_start MOVE_FORWARD (agent, r)))
       = transition_action_on_cellexit agent"
  by (simp add: halt_or_start_def Let_def)

lemma agent_tick_dead_end:
  assumes d: "direction agent = d" "0 \<le> d" "d < 4"
    and dead_end: "\<exists>!k. k < 16 \<and> bit (get_transitions_cell (rail env) (position agent)) k"
    and reversal: "get_transition (rail env) (position agent, d) ((d + 2) mod 4)"
    and way: "get_new_position (position agent) ((d + 2) mod 4) = Some behind"
      "cell_is_valid env behind"
    and pending: "position_fraction agent = 0 \<or> transition_action_on_cellexit agent = MOVE_FORWARD"
    and tick: "agent_tick env MOVE_FORWARD (agent, r) = Inr (agent', r', dn)"
  shows "transition_action_on_cellexit agent' = MOVE_FORWARD \<and> moving agent'
     \<and> ((position agent' = position agent \<and> direction agent' = d)
         \<or> (position agent' = behind \<and> direction agent' = (d + 2) mod 4))"
proof -
  have ca: "check_action_on_agent env MOVE_FORWARD x =
     Inr (behind \<notin> set (map position (agents env)), True, (d + 2) mod 4, behind, True)"
    if "position x = position agent" "direction x = d" for x
    using check_action_on_agent_dead_end [of x d env behind] that d dead_end reversal way
    by simp
  let ?b = "fst (halt_or_start MOVE_FORWARD (agent, r))"
  have b: "position ?b = position agent" "direction ?b = d" "moving ?b"
    "transition_action_on_cellexit ?b = transition_action_on_cellexit agent"
    "position_fraction ?b = position_fraction agent"
    using halt_or_start_frame [of MOVE_FORWARD "(agent, r)"]
      halt_or_start_forward [of agent r] d(1) by simp_all
  obtain c s where sel: "choose_transition env MOVE_FORWARD (halt_or_start MOVE_FORWARD (agent, r))
      = Inr (Selected c r s)"
    and c: "position c = position agent" "direction c = d" "moving c"
      "transition_action_on_cellexit c = MOVE_FORWARD"
  proof (cases "position_fraction agent = 0")
    case True
    with b have "choose_transition env MOVE_FORWARD (halt_or_start MOVE_FORWARD (agent, r))
      = Inr (Selected (?b\<lparr>transition_action_on_cellexit := MOVE_FORWARD\<rparr>)
              (snd (halt_or_start MOVE_FORWARD (agent, r))) True)"
      by (simp add: choose_transition_def ca)
    moreover have "snd (halt_or_start MOVE_FORWARD (agent, r)) = r"
      using halt_or_start_frame [of MOVE_FORWARD "(agent, r)"] by simp
    ultimately show ?thesis
      using b that [of "?b\<lparr>transition_action_on_cellexit := MOVE_FORWARD\<rparr>" True] by simp
  next
    case False
    with b have "choose_transition env MOVE_FORWARD (halt_or_start MOVE_FORWARD (agent, r))
      = Inr (Selected ?b (snd (halt_or_start MOVE_FORWARD (agent, r))) False)"
      by (simp add: choose_transition_def)
    moreover have "snd (halt_or_start MOVE_FORWARD (agent, r)) = r"
      using halt_or_start_frame [of MOVE_FORWARD "(agent, r)"] by simp
    moreover from False pending have "transition_action_on_cellexit agent = MOVE_FORWARD" by simp
    ultimately show ?thesis using b that [of ?b False] by simp
  qed
  let ?e = "advance s c"
  have e: "position ?e = position agent" "direction ?e = d" "moving ?e"
    "transition_action_on_cellexit ?e = MOVE_FORWARD"
    using c by (simp_all add: advance_def)
  from tick sel e ca [of ?e] show ?thesis
    by (auto simp: agent_tick_def exit_cell_def split: if_splits)
qed

lemma step_rail:
  assumes "step env action_dict = Inr env'"
  shows "rail env' = rail env \<and> height env' = height env \<and> width env' = width env"
  using assms
proof (cases rule: step_cases)
  case all_done
  then show ?thesis by simp
next
  case (ticked env1)
  from step_agents_frame [OF ticked(2), of 0] ticked(5-7) show ?thesis by simp
qed

section \<open>Properties of the observation builder\<close>


lemmas reset_defs = reset_def distance_map_walker_def get_and_update_neighbors_def in_grid_def
  dm_write_def dm_read_def np_index4_def np_index3_def np_index_def new_position_def
  get_transitions_def get_transition_def get_transitions_cell_def Let_def


























section \<open>The claims about the step engine\<close>

text \<open>
  Claim C2 (no double occupancy). If all agents occupy pairwise distinct cells before a
  call of \<open>step\<close>, they occupy pairwise distinct cells after it.
\<close>

theorem no_double_occupancy:
  assumes "distinct (map position (agents env))"
    and "step env action_dict = Inr env'"
  shows "distinct (map position (agents env'))"
  using step_distinct [OF assms(2) assms(1)] .

theorem no_double_occupancy_witness:
  "distinct (map position (agents two_trains))
   \<and> (\<exists>env'. step two_trains both_forward = Inr env'
        \<and> map position (agents env') = [(0, 0), (0, 2)]
        \<and> distinct (map position (agents env')))"
proof -
  have d: "distinct (map position (agents two_trains))"
    by (simp add: example_defs)
  obtain env' where s: "step two_trains both_forward = Inr env'"
    and p: "map position (agents env') = [(0, 0), (0, 2)]"
    by (simp add: engine_defs example_defs upt_rec)
  from no_double_occupancy [OF d s] d s p show ?thesis by simp
qed

text \<open>
  Claim C7 (step after the end of the episode). When the aggregate all-done flag is set,
  \<open>step\<close> returns, for every agent handle, the reward zero plus the global bonus, and
  leaves the agents (position, direction, moving flag, position fraction) and the done
  flags as they were.
\<close>

theorem step_after_episode_end:
  assumes "dones_all env"
  shows "\<exists>env'. step env action_dict = Inr env'
     \<and> agents env' = agents env \<and> dones env' = dones env \<and> dones_all env'
     \<and> (\<forall>i < get_num_agents env. rewards_dict env' i = Some (0 + global_reward))"
  using assms by (simp add: step_def Let_def get_num_agents_def)

theorem step_after_episode_end_witness:
  "dones_all all_arrived
   \<and> (\<exists>env'. step all_arrived both_forward = Inr env'
        \<and> agents env' = agents all_arrived \<and> dones env' = dones all_arrived \<and> dones_all env'
        \<and> rewards_dict env' 0 = Some 1)"
proof -
  have a: "dones_all all_arrived" by (simp add: example_defs)
  have n: "0 < get_num_agents all_arrived" by (simp add: example_defs get_num_agents_def)
  from step_after_episode_end [OF a, of both_forward] a n show ?thesis
    by (auto simp: global_reward_def)
qed

text \<open>
  Claim C8 (monotonic completion). Once the done flag of an agent is set, it stays set
  after any number of further calls of \<open>step\<close>, and these calls change neither the
  agent's position nor its direction, moving flag or position fraction.
\<close>

theorem done_is_permanent:
  assumes "dones env i = Some True"
    and "i < length (agents env)"
    and "run_steps env action_dicts = Inr env'"
  shows "dones env' i = Some True
     \<and> position (agents env' ! i) = position (agents env ! i)
     \<and> direction (agents env' ! i) = direction (agents env ! i)
     \<and> moving (agents env' ! i) = moving (agents env ! i)
     \<and> position_fraction (agents env' ! i) = position_fraction (agents env ! i)"
  using run_steps_finished [OF assms(3) assms(2) assms(1)] .

theorem done_is_permanent_witness:
  "dones second_arrived 1 = Some True \<and> 1 < length (agents second_arrived)
   \<and> (\<exists>env'. run_steps second_arrived [both_forward, both_forward] = Inr env'
        \<and> map position (agents env') = [(0, 1), (0, 2)]
        \<and> dones env' 1 = Some True
        \<and> position (agents env' ! 1) = position (agents second_arrived ! 1)
        \<and> direction (agents env' ! 1) = direction (agents second_arrived ! 1)
        \<and> moving (agents env' ! 1) = moving (agents second_arrived ! 1)
        \<and> position_fraction (agents env' ! 1) = position_fraction (agents second_arrived ! 1))"
proof -
  have a: "dones second_arrived 1 = Some True" by (simp add: example_defs)
  have b: "1 < length (agents second_arrived)" by (simp add: example_defs)
  obtain env' where s: "run_steps second_arrived [both_forward, both_forward] = Inr env'"
    and p: "map position (agents env') = [(0, 1), (0, 2)]"
    by (simp add: engine_defs example_defs upt_rec)
  from done_is_permanent [OF a b s] a b s p show ?thesis by simp
qed

text \<open>
  Claim C9 (a change of cell is one legal move). For every agent and every call of
  \<open>step\<close>: if the agent's position after the call differs from its position before, then
  its position fraction is 0, its new position is the neighbour of the old one in its new
  direction, and the transition from the old position and direction to the new direction
  is allowed by the transition map; if its position is the same, so is its direction.
\<close>

theorem position_change_is_legal_move:
  assumes "step env action_dict = Inr env'" and "i < length (agents env)"
  shows "(position (agents env' ! i) \<noteq> position (agents env ! i) \<longrightarrow>
            position_fraction (agents env' ! i) = 0
          \<and> get_new_position (position (agents env ! i)) (direction (agents env' ! i))
              = Some (position (agents env' ! i))
          \<and> get_transition (rail env) (position (agents env ! i), direction (agents env ! i))
              (direction (agents env' ! i)))
     \<and> (position (agents env' ! i) = position (agents env ! i) \<longrightarrow>
            direction (agents env' ! i) = direction (agents env ! i))"
  using step_move [OF assms] .

theorem position_change_is_legal_move_witness:
  "1 < length (agents two_trains)
   \<and> (\<exists>env'. step two_trains both_forward = Inr env'
        \<and> position (agents two_trains ! 1) = (0, 1) \<and> position (agents env' ! 1) = (0, 2)
        \<and> position_fraction (agents env' ! 1) = 0
        \<and> get_new_position (position (agents two_trains ! 1)) (direction (agents env' ! 1))
              = Some (position (agents env' ! 1))
        \<and> get_transition (rail two_trains)
              (position (agents two_trains ! 1), direction (agents two_trains ! 1))
              (direction (agents env' ! 1)))"
proof -
  have b: "1 < length (agents two_trains)" by (simp add: example_defs)
  obtain env' where s: "step two_trains both_forward = Inr env'"
    and p: "position (agents env' ! 1) = (0, 2)"
    by (simp add: engine_defs example_defs upt_rec)
  have q: "position (agents two_trains ! 1) = (0, 1)" by (simp add: example_defs)
  from position_change_is_legal_move [OF s b] b s p q show ?thesis by simp
qed

text \<open>
  Claim C6 (move-forward at a dead end), as amended. In a call of \<open>step\<close> with the
  episode not globally done, an agent that is not done stands on a cell whose mask has
  exactly one bit set and faces into the dead end with direction \<open>d\<close>: the one transition
  of the cell is the reversal from \<open>d\<close> to \<open>(d + 2) mod 4\<close>. The cell behind it, its
  neighbour in direction \<open>(d + 2) mod 4\<close>, lies on the grid and holds some rail, and the
  agent is at the start of the cell, or further on with move-forward already stored. Then
  move-forward passes the test of line 255 and the tick does not end at a \<open>continue\<close>;
  after the call move-forward is the stored action and the agent is moving; and either
  the agent is still on the cell, heading \<open>d\<close>, and \<open>check_action\<close> answers the stored
  action with the exit direction \<open>(d + 2) mod 4\<close> and the verdict valid, or it has left
  for the cell behind it and heads \<open>(d + 2) mod 4\<close>.
\<close>

theorem dead_end_forward_is_stored:
  assumes "step env action_dict = Inr env'" and "\<not> dones_all env"
    and "i < get_num_agents env" and "dones env i = Some False"
    and "action_dict i = Some MOVE_FORWARD"
    and "direction (agents env ! i) = d" and "0 \<le> d" and "d < 4"
    and "\<exists>!k. k < 16 \<and> bit (get_transitions_cell (rail env) (position (agents env ! i))) k"
    and "get_transition (rail env) (position (agents env ! i), d) ((d + 2) mod 4)"
    and "get_new_position (position (agents env ! i)) ((d + 2) mod 4) = Some behind"
    and "cell_is_valid env behind"
    and "position_fraction (agents env ! i) = 0
         \<or> transition_action_on_cellexit (agents env ! i) = MOVE_FORWARD"
  shows "action_is_valid env MOVE_FORWARD (agents env ! i)
     \<and> \<not> ends_tick_early env action_dict i
     \<and> transition_action_on_cellexit (agents env' ! i) = MOVE_FORWARD
     \<and> moving (agents env' ! i)
     \<and> ((position (agents env' ! i) = position (agents env ! i)
          \<and> direction (agents env' ! i) = d
          \<and> check_action env' (agents env' ! i) (transition_action_on_cellexit (agents env' ! i))
              = ((d + 2) mod 4, Some True))
         \<or> (position (agents env' ! i) = behind
            \<and> direction (agents env' ! i) = (d + 2) mod 4))"
proof -
  from assms(1-3) obtain env1 env2 where
    p: "step_agent action_dict i env1 = Inr env2"
    "rail env1 = rail env" "height env1 = height env" "width env1 = width env"
    "agents env1 ! i = agents env ! i" "dones env1 i = dones env i"
    "rewards_dict env1 i = Some 0"
    "agents env' ! i = agents env2 ! i" "dones env' i = dones env2 i"
    "rewards_dict env' i = rewards_dict env2 i
       \<or> list_all (\<lambda>agent2. position agent2 = target agent2) (agents env')"
    "i < length (agents env')"
    by (rule step_pick)
  let ?a = "(agents env1 ! i)\<lparr>old_direction := Some (direction (agents env1 ! i)),
                  old_position := Some (position (agents env1 ! i))\<rparr>"
  have valid: "action_is_valid env MOVE_FORWARD x"
    if "position x = position (agents env ! i)" "direction x = d" for x
    using check_action_on_agent_dead_end [of x d env behind] that assms(7-12)
    by (simp add: action_is_valid_def)
  have act: "select_action action_dict i x = MOVE_FORWARD" for x
    using assms(5) by (simp add: select_action_def len_RailEnvActions_def)
  have early: "\<not> ends_tick_early env action_dict i"
  proof -
    let ?h = "halt_or_start MOVE_FORWARD (agents env ! i, 0)"
    have "position (fst ?h) = position (agents env ! i)" "direction (fst ?h) = d"
      using halt_or_start_frame [of MOVE_FORWARD "(agents env ! i, 0)"] assms(6) by simp_all
    then have "action_is_valid env MOVE_FORWARD (fst ?h)" by (rule valid)
    then have "\<not> (case choose_transition env MOVE_FORWARD ?h of
            Inr (Skipped a r) \<Rightarrow> True | _ \<Rightarrow> False)"
      unfolding choose_transition_skipped_iff by simp
    then show ?thesis by (simp add: ends_tick_early_def Let_def act)
  qed
  from p(1) have tick: "transition_action_on_cellexit (agents env' ! i) = MOVE_FORWARD
     \<and> moving (agents env' ! i)
     \<and> ((position (agents env' ! i) = position (agents env ! i) \<and> direction (agents env' ! i) = d)
         \<or> (position (agents env' ! i) = behind \<and> direction (agents env' ! i) = (d + 2) mod 4))"
  proof (cases rule: step_agent_cases)
    case finished
    with p(6) assms(4) show ?thesis by simp
  next
    case (ticked r0 agent' r' dn)
    have v1: "cell_is_valid env1 behind"
      using assms(12) p(2-4) by (simp add: cell_is_valid_def)
    from ticked(4) have t: "agent_tick env1 MOVE_FORWARD (?a, r0) = Inr (agent', r', dn)"
      by (simp add: act)
    have "transition_action_on_cellexit agent' = MOVE_FORWARD \<and> moving agent'
     \<and> ((position agent' = position ?a \<and> direction agent' = d)
         \<or> (position agent' = behind \<and> direction agent' = (d + 2) mod 4))"
      using _ assms(7,8) _ _ _ v1 _ t
      by (rule agent_tick_dead_end) (use assms(6,9,10,11,13) p(2,5) in simp_all)
    with ticked(1,5) p(5,8) show ?thesis by simp
  qed
  have pending: "check_action env' (agents env' ! i) MOVE_FORWARD = ((d + 2) mod 4, Some True)"
    if "position (agents env' ! i) = position (agents env ! i)" "direction (agents env' ! i) = d"
    using step_rail [OF assms(1)] that assms(7-10)
    by (intro check_action_dead_end) simp_all
  from valid [of "agents env ! i"] assms(6) early tick pending show ?thesis by auto
qed

theorem dead_end_forward_is_stored_witness:
  "\<not> dones_all at_dead_end \<and> 0 < get_num_agents at_dead_end \<and> dones at_dead_end 0 = Some False
   \<and> direction (agents at_dead_end ! 0) = 1
   \<and> (\<exists>!k. k < 16 \<and> bit (get_transitions_cell (rail at_dead_end) (position (agents at_dead_end ! 0))) k)
   \<and> get_transition (rail at_dead_end) (position (agents at_dead_end ! 0), 1) 3
   \<and> get_new_position (position (agents at_dead_end ! 0)) 3 = Some (0, 0)
   \<and> cell_is_valid at_dead_end (0, 0)
   \<and> position_fraction (agents at_dead_end ! 0) = 0
   \<and> action_is_valid at_dead_end MOVE_FORWARD (agents at_dead_end ! 0)
   \<and> \<not> ends_tick_early at_dead_end [0 \<mapsto> MOVE_FORWARD] 0
   \<and> (\<exists>env'. step at_dead_end [0 \<mapsto> MOVE_FORWARD] = Inr env'
         \<and> transition_action_on_cellexit (agents env' ! 0) = MOVE_FORWARD
         \<and> moving (agents env' ! 0)
         \<and> position (agents env' ! 0) = (0, 0)
         \<and> direction (agents env' ! 0) = 3)"
proof -
  have a: "\<not> dones_all at_dead_end" "0 < get_num_agents at_dead_end"
    "dones at_dead_end 0 = Some False"
    by (simp_all add: example_defs get_num_agents_def)
  have f: "[0 \<mapsto> MOVE_FORWARD] (0 :: nat) = Some MOVE_FORWARD" by simp
  have d: "direction (agents at_dead_end ! 0) = 1" "(0 :: int) \<le> 1" "(1 :: int) < 4"
    by (simp_all add: example_defs)
  have w: "get_transitions_cell (rail at_dead_end) (position (agents at_dead_end ! 0)) = 0x80"
    by (simp add: example_defs get_transitions_cell_def)
  have b: "\<exists>!k. k < 16 \<and> bit (get_transitions_cell (rail at_dead_end) (position (agents at_dead_end ! 0))) k"
    unfolding w by (rule single_bit)
  have c: "get_transition (rail at_dead_end) (position (agents at_dead_end ! 0), 1) ((1 + 2) mod 4)"
    by (simp add: get_transition_def w)
  have g: "get_new_position (position (agents at_dead_end ! 0)) ((1 + 2) mod 4) = Some (0, 0)"
    by (simp add: example_defs get_new_position_def)
  have v: "cell_is_valid at_dead_end (0, 0)"
    by (simp add: cell_is_valid_def example_defs get_transitions_cell_def)
  have z: "position_fraction (agents at_dead_end ! 0) = 0
         \<or> transition_action_on_cellexit (agents at_dead_end ! 0) = MOVE_FORWARD"
    by (simp add: example_defs)
  obtain env' where s: "step at_dead_end [0 \<mapsto> MOVE_FORWARD] = Inr env'"
    and q: "position (agents env' ! 0) = (0, 0)" "position (agents at_dead_end ! 0) \<noteq> (0, 0)"
    by (simp add: engine_defs example_defs upt_rec)
  have z0: "position_fraction (agents at_dead_end ! 0) = 0" by (simp add: example_defs)
  note r = dead_end_forward_is_stored [OF s a f d b c g v z]
  from r have r1: "action_is_valid at_dead_end MOVE_FORWARD (agents at_dead_end ! 0)"
    by (rule conjunct1)
  from r have r2: "\<not> ends_tick_early at_dead_end [0 \<mapsto> MOVE_FORWARD] 0"
    by (rule conjunct1 [OF conjunct2])
  from r q have r3: "transition_action_on_cellexit (agents env' ! 0) = MOVE_FORWARD
      \<and> moving (agents env' ! 0) \<and> direction (agents env' ! 0) = 3"
    by simp
  from s r3 q(1) have e: "\<exists>env'. step at_dead_end [0 \<mapsto> MOVE_FORWARD] = Inr env'
         \<and> transition_action_on_cellexit (agents env' ! 0) = MOVE_FORWARD
         \<and> moving (agents env' ! 0)
         \<and> position (agents env' ! 0) = (0, 0)
         \<and> direction (agents env' ! 0) = 3"
    by blast
  from g have g': "get_new_position (position (agents at_dead_end ! 0)) 3 = Some (0, 0)"
    by simp
  from c have c': "get_transition (rail at_dead_end) (position (agents at_dead_end ! 0), 1) 3"
    by simp
  from a d(1) b c' g' v z0 r1 r2 e show ?thesis by blast
qed

text \<open>
  Claim C6 as stated fails at a dead end whose way back leaves the grid. The train in the
  first column heads east on a cell whose one transition turns it back west; \<open>check_action\<close>
  answers move-forward with direction 3 and the verdict valid, but the cell to the west is
  off the grid, so \<open>new_cell_isValid\<close> is false and the test of line 255 fails: \<open>step\<close>
  stops the train by force (lines 277-283) and stores no action.
\<close>

theorem dead_end_at_the_edge_is_stopped:
  "\<not> dones_all at_edge \<and> dones at_edge 0 = Some False
   \<and> direction (agents at_edge ! 0) = 1
   \<and> get_transitions_cell (rail at_edge) (position (agents at_edge ! 0)) = 0x80
   \<and> get_transition (rail at_edge) (position (agents at_edge ! 0), 1) 3
   \<and> position_fraction (agents at_edge ! 0) = 0
   \<and> check_action at_edge (agents at_edge ! 0) MOVE_FORWARD = (3, Some True)
   \<and> check_action_on_agent at_edge MOVE_FORWARD (agents at_edge ! 0)
       = Inr (True, False, 3, (0, - 1), True)
   \<and> \<not> action_is_valid at_edge MOVE_FORWARD (agents at_edge ! 0)
   \<and> ends_tick_early at_edge [0 \<mapsto> MOVE_FORWARD] 0
   \<and> \<not> isl (step at_edge [0 \<mapsto> MOVE_FORWARD])
   \<and> transition_action_on_cellexit (agents at_edge ! 0) = DO_NOTHING
   \<and> transition_action_on_cellexit (agents (projr (step at_edge [0 \<mapsto> MOVE_FORWARD])) ! 0)
       = DO_NOTHING
   \<and> \<not> moving (agents (projr (step at_edge [0 \<mapsto> MOVE_FORWARD])) ! 0)
   \<and> position (agents (projr (step at_edge [0 \<mapsto> MOVE_FORWARD])) ! 0) = (0, 0)
   \<and> direction (agents (projr (step at_edge [0 \<mapsto> MOVE_FORWARD])) ! 0) = 1"
  by (simp add: engine_defs example_defs action_is_valid_def
        ends_tick_early_def upt_rec)

text \<open>
  Claim C4 (out-of-range action codes), evaluated where the code departs from it. The
  range test of line 216 is \<open>> len(RailEnvActions)\<close>, so that the code 5, which is outside
  the valid set 0..4, is not replaced by do-nothing: a stationary train given 5 starts
  moving and enters the next cell, while given do-nothing it stays where it is.
\<close>

theorem action_code_five_is_executed: "projr (step (one_train (0, 0) (0, 2)) [0 \<mapsto> 5]) \<noteq> projr (step (one_train (0, 0) (0, 2)) [0 \<mapsto> DO_NOTHING])
  \<and> map position (agents (projr (step (one_train (0, 0) (0, 2)) [0 \<mapsto> 5]))) = [(0, 1)]
  \<and> map position (agents (projr (step (one_train (0, 0) (0, 2)) [0 \<mapsto> DO_NOTHING]))) = [(0, 0)]
  \<and> map moving (agents (projr (step (one_train (0, 0) (0, 2)) [0 \<mapsto> 5]))) = [True]
  \<and> map moving (agents (projr (step (one_train (0, 0) (0, 2)) [0 \<mapsto> DO_NOTHING]))) = [False]"
  by (simp add: engine_defs example_defs upt_rec)

text \<open>
  Claim C5 (step penalty or done), as amended. In a call of \<open>step\<close> with the episode not
  globally done, every agent that is not already done and whose tick does not end early by
  the forced stop after an invalid action either ends the tick away from its target, and
  then its reward for the tick is the step penalty times its speed and it is not marked
  done, or ends it on its target, and then it is marked done.
\<close>

theorem step_penalty_or_done:
  assumes "step env action_dict = Inr env'" and "\<not> dones_all env"
    and "i < get_num_agents env" and "dones env i = Some False"
    and "\<not> ends_tick_early env action_dict i"
  shows "(position (agents env' ! i) \<noteq> target (agents env' ! i) \<longrightarrow>
            rewards_dict env' i = Some (0 + step_penalty * speed (agents env' ! i))
          \<and> dones env' i = Some False)
     \<and> (position (agents env' ! i) = target (agents env' ! i) \<longrightarrow> dones env' i = Some True)"
proof -
  from assms(1-3) obtain env1 env2 where
    p: "step_agent action_dict i env1 = Inr env2"
    "rail env1 = rail env" "height env1 = height env" "width env1 = width env"
    "agents env1 ! i = agents env ! i" "dones env1 i = dones env i"
    "rewards_dict env1 i = Some 0"
    "agents env' ! i = agents env2 ! i" "dones env' i = dones env2 i"
    "rewards_dict env' i = rewards_dict env2 i
       \<or> list_all (\<lambda>agent2. position agent2 = target agent2) (agents env')"
    "i < length (agents env')"
    by (rule step_pick)
  let ?a = "(agents env1 ! i)\<lparr>old_direction := Some (direction (agents env1 ! i)),
                  old_position := Some (position (agents env1 ! i))\<rparr>"
  let ?act = "select_action action_dict i ?a"
  from p(1) show ?thesis
  proof (cases rule: step_agent_cases)
    case finished
    with p(6) assms(4) show ?thesis by simp
  next
    case (ticked r0 agent' r' d)
    from ticked(3) p(7) have r0: "r0 = 0" by simp
    have act: "?act = select_action action_dict i (agents env ! i)"
      by (simp add: select_action_touch p(5))
    have "(case choose_transition env1 ?act (halt_or_start ?act (?a, r0)) of
            Inr (Skipped a r) \<Rightarrow> True | _ \<Rightarrow> False)
       = (case choose_transition env ?act (halt_or_start ?act (agents env ! i, 0)) of
            Inr (Skipped a r) \<Rightarrow> True | _ \<Rightarrow> False)"
      by (rule skipped_indep) (simp_all add: p)
    with assms(5) have "\<not> (case choose_transition env1 ?act (halt_or_start ?act (?a, r0)) of
            Inr (Skipped a r) \<Rightarrow> True | _ \<Rightarrow> False)"
      by (simp add: ends_tick_early_def Let_def act)
    from agent_tick_completed [OF ticked(4) this] r0
    have d: "d = (position agent' = target agent')"
      "\<not> d \<longrightarrow> r' = 0 + step_penalty * speed agent'" by simp_all
    from ticked(1,5) p(8,9) ticked(2)
    have e: "agents env' ! i = agent'" "rewards_dict env2 i = Some r'"
      "dones env' i = Some d" by auto
    show ?thesis
    proof (cases d)
      case True
      with d e show ?thesis by simp
    next
      case False
      with d e(1) have ne: "position (agents env' ! i) \<noteq> target (agents env' ! i)" by simp
      with p(11) have "\<not> list_all (\<lambda>agent2. position agent2 = target agent2) (agents env')"
        by (auto simp: list_all_length)
      with p(10) e(2) have "rewards_dict env' i = Some r'" by simp
      with False d e ne show ?thesis by simp
    qed
  qed
qed

theorem step_penalty_or_done_witness:
  "\<not> dones_all two_trains \<and> 0 < get_num_agents two_trains \<and> dones two_trains 0 = Some False
   \<and> \<not> ends_tick_early two_trains both_forward 0
   \<and> (\<exists>env'. step two_trains both_forward = Inr env'
         \<and> position (agents env' ! 0) \<noteq> target (agents env' ! 0)
         \<and> rewards_dict env' 0 = Some (0 + step_penalty * speed (agents env' ! 0))
         \<and> dones env' 0 = Some False)"
proof -
  have a: "\<not> dones_all two_trains" "0 < get_num_agents two_trains"
    "dones two_trains 0 = Some False"
    by (simp_all add: example_defs get_num_agents_def)
  have b: "\<not> ends_tick_early two_trains both_forward 0"
    by (simp add: ends_tick_early_def engine_defs example_defs)
  obtain env' where s: "step two_trains both_forward = Inr env'"
    and p: "position (agents env' ! 0) \<noteq> target (agents env' ! 0)"
    by (simp add: engine_defs example_defs upt_rec)
  from step_penalty_or_done [OF s a b] a b s p show ?thesis by simp
qed

text \<open>
  Claim C5 as stated fails for an agent stopped by force: at the east end of the corridor,
  bound for the west end, move-forward leads off the grid; the tick ends at the
  \<open>continue\<close> of line 283, the agent is not on its target, and its reward is 0, not the
  step penalty -1 times its speed 1.
\<close>

theorem forced_stop_has_no_step_penalty:
  "\<not> dones_all (one_train (0, 2) (0, 0)) \<and> dones (one_train (0, 2) (0, 0)) 0 = Some False
   \<and> \<not> isl (step (one_train (0, 2) (0, 0)) [0 \<mapsto> MOVE_FORWARD])
   \<and> position (agents (projr (step (one_train (0, 2) (0, 0)) [0 \<mapsto> MOVE_FORWARD])) ! 0) = (0, 2)
   \<and> target (agents (projr (step (one_train (0, 2) (0, 0)) [0 \<mapsto> MOVE_FORWARD])) ! 0) = (0, 0)
   \<and> speed (agents (projr (step (one_train (0, 2) (0, 0)) [0 \<mapsto> MOVE_FORWARD])) ! 0) = 1
   \<and> step_penalty = - 1
   \<and> rewards_dict (projr (step (one_train (0, 2) (0, 0)) [0 \<mapsto> MOVE_FORWARD])) 0 = Some 0"
  by (simp add: engine_defs example_defs upt_rec)

text \<open>
  Claim C10 (an idle agent on its target), as amended. With the episode not globally done,
  an agent that is not yet marked done, stands on its target, is stationary with a
  position fraction below 1, and gets do-nothing or no action, is marked done by this call
  of \<open>step\<close>; its position and direction stay, and it stays stationary.
\<close>

theorem idle_on_target_is_marked_done:
  assumes "step env action_dict = Inr env'" and "\<not> dones_all env"
    and "i < get_num_agents env" and "dones env i = Some False"
    and "position (agents env ! i) = target (agents env ! i)"
    and "\<not> moving (agents env ! i)" and "position_fraction (agents env ! i) < 1"
    and "action_dict i = None \<or> action_dict i = Some DO_NOTHING"
  shows "dones env' i = Some True
     \<and> position (agents env' ! i) = position (agents env ! i)
     \<and> direction (agents env' ! i) = direction (agents env ! i)
     \<and> \<not> moving (agents env' ! i)"
proof -
  from assms(1-3) obtain env1 env2 where
    p: "step_agent action_dict i env1 = Inr env2"
    "rail env1 = rail env" "height env1 = height env" "width env1 = width env"
    "agents env1 ! i = agents env ! i" "dones env1 i = dones env i"
    "rewards_dict env1 i = Some 0"
    "agents env' ! i = agents env2 ! i" "dones env' i = dones env2 i"
    "rewards_dict env' i = rewards_dict env2 i
       \<or> list_all (\<lambda>agent2. position agent2 = target agent2) (agents env')"
    "i < length (agents env')"
    by (rule step_pick)
  let ?a = "(agents env1 ! i)\<lparr>old_direction := Some (direction (agents env1 ! i)),
                  old_position := Some (position (agents env1 ! i))\<rparr>"
  from p(1) show ?thesis
  proof (cases rule: step_agent_cases)
    case finished
    with p(6) assms(4) show ?thesis by simp
  next
    case (ticked r0 agent' r' d)
    from assms(6,8) p(5) have act: "select_action action_dict i ?a = DO_NOTHING"
      by (auto simp: select_action_def len_RailEnvActions_def)
    have "agent_tick env1 DO_NOTHING (?a, r0) = Inr (?a, r0, True)"
      using assms(5-7) p(5) by (intro agent_tick_idle) simp_all
    with ticked(4) act have "agent' = ?a" "d" by simp_all
    with ticked(1,5) p(5,8,9) assms(6) show ?thesis by simp
  qed
qed

theorem idle_on_target_is_marked_done_witness:
  "\<not> dones_all (one_train (0, 2) (0, 2)) \<and> 0 < get_num_agents (one_train (0, 2) (0, 2))
   \<and> dones (one_train (0, 2) (0, 2)) 0 = Some False
   \<and> position (agents (one_train (0, 2) (0, 2)) ! 0) = target (agents (one_train (0, 2) (0, 2)) ! 0)
   \<and> \<not> moving (agents (one_train (0, 2) (0, 2)) ! 0)
   \<and> position_fraction (agents (one_train (0, 2) (0, 2)) ! 0) < 1
   \<and> (\<exists>env'. step (one_train (0, 2) (0, 2)) Map.empty = Inr env'
         \<and> dones env' 0 = Some True
         \<and> position (agents env' ! 0) = (0, 2))"
proof -
  let ?e = "one_train (0, 2) (0, 2)"
  have a: "\<not> dones_all ?e" "0 < get_num_agents ?e" "dones ?e 0 = Some False"
    "position (agents ?e ! 0) = target (agents ?e ! 0)" "\<not> moving (agents ?e ! 0)"
    "position_fraction (agents ?e ! 0) < 1"
    by (simp_all add: example_defs get_num_agents_def)
  have n: "Map.empty 0 = None \<or> (Map.empty :: nat \<rightharpoonup> int) 0 = Some DO_NOTHING" by simp
  obtain env' where s: "step ?e Map.empty = Inr env'"
    by (simp add: engine_defs example_defs upt_rec)
  have q: "position (agents ?e ! 0) = (0, 2)" by (simp add: example_defs)
  from idle_on_target_is_marked_done [OF s a n] a s q show ?thesis by simp
qed

text \<open>
  Claim C10 as stated fails once the episode is globally done. A train that starts on its
  target and is first told to move forward, off the grid, is stopped by force and not
  marked done (line 283 skips line 303), yet the end-of-episode test of line 308 sets the
  all-done flag. From then on \<open>step\<close> returns at line 203: do-nothing, or no action, leaves
  the stationary agent on its target unmarked.
\<close>

theorem idle_on_target_after_episode_end:
  "\<not> isl (step (one_train (0, 2) (0, 2)) [0 \<mapsto> MOVE_FORWARD])
   \<and> position (agents (projr (step (one_train (0, 2) (0, 2)) [0 \<mapsto> MOVE_FORWARD])) ! 0)
      = target (agents (projr (step (one_train (0, 2) (0, 2)) [0 \<mapsto> MOVE_FORWARD])) ! 0)
   \<and> \<not> moving (agents (projr (step (one_train (0, 2) (0, 2)) [0 \<mapsto> MOVE_FORWARD])) ! 0)
   \<and> dones (projr (step (one_train (0, 2) (0, 2)) [0 \<mapsto> MOVE_FORWARD])) 0 = Some False
   \<and> \<not> isl (step (projr (step (one_train (0, 2) (0, 2)) [0 \<mapsto> MOVE_FORWARD])) [0 \<mapsto> DO_NOTHING])
   \<and> dones (projr (step (projr (step (one_train (0, 2) (0, 2)) [0 \<mapsto> MOVE_FORWARD])) [0 \<mapsto> DO_NOTHING])) 0 = Some False
   \<and> \<not> isl (step (projr (step (one_train (0, 2) (0, 2)) [0 \<mapsto> MOVE_FORWARD])) Map.empty)
   \<and> dones (projr (step (projr (step (one_train (0, 2) (0, 2)) [0 \<mapsto> MOVE_FORWARD])) Map.empty)) 0 = Some False"
  by (simp add: engine_defs example_defs upt_rec)

section \<open>The claims about the observation builder\<close>




text \<open>
  Claim C1 (the distance map after \<open>reset\<close>), evaluated where the code departs from it. On
  the corridor, the cell west of the target leads into it, so the first loop of
  \<open>_get_and_update_neighbors\<close> reaches line 172 and \<open>reset\<close> raises \<open>ValueError\<close>: no
  distance map is built.
\<close>

theorem reset_raises_on_corridor:
  "reset corridor_obs corridor_env = Some (Inl ValueError)"
  by (simp add: reset_defs corridor_env_def corridor_def upt_rec)

end
